theory Spec2Isabelle
  imports Main "HOL-Library.AList" "HOL-Library.Sublist"
begin

section \<open>Python values\<close>

text \<open>
  The three modules pass around untyped Python data: the decoded JSON reply of the
  language model, the question mapping handed to the form, and the documents of the
  candidates collection. One datatype covers them. A dict is an association list in
  insertion order with string keys. Floating-point numbers are carried as values of an
  abstract type \<open>'f\<close>; how Python prints them and which of them is zero comes from
  the record of built-ins below, as do \<open>repr\<close> of a text and the printing of
  \<open>datetime\<close> and \<open>ObjectId\<close> values (library code, not code of this repository).
  A \<open>datetime\<close> is a reading of the clock, an \<open>ObjectId\<close> a number.
\<close>

datatype 'f pyval =
    PNone
  | PBool bool
  | PInt int
  | PFloat 'f
  | PStr string
  | PList "'f pyval list"
  | PDict "(string \<times> 'f pyval) list"
  | PDate nat
  | POid nat

type_synonym 'f pydict = "(string \<times> 'f pyval) list"

record 'f builtins =
  repr_of_str :: "string \<Rightarrow> string"
  repr_of_float :: "'f \<Rightarrow> string"
  float_is_zero :: "'f \<Rightarrow> bool"
  str_of_date :: "nat \<Rightarrow> string"
  repr_of_date :: "nat \<Rightarrow> string"
  str_of_oid :: "nat \<Rightarrow> string"
  repr_of_oid :: "nat \<Rightarrow> string"

text \<open>Truth value of an object, as \<open>not x\<close>, \<open>x or y\<close> and \<open>if x\<close> test it.\<close>

fun truthy :: "'f builtins \<Rightarrow> 'f pyval \<Rightarrow> bool" where
  "truthy B PNone = False"
| "truthy B (PBool b) = b"
| "truthy B (PInt i) = (i \<noteq> 0)"
| "truthy B (PFloat x) = (\<not> float_is_zero B x)"
| "truthy B (PStr s) = (s \<noteq> [])"
| "truthy B (PList xs) = (xs \<noteq> [])"
| "truthy B (PDict d) = (d \<noteq> [])"
| "truthy B (PDate t) = True"
| "truthy B (POid n) = True"

definition py_or :: "'f builtins \<Rightarrow> 'f pyval \<Rightarrow> 'f pyval \<Rightarrow> 'f pyval" where
  "py_or B a b = (if truthy B a then a else b)"

definition dict_get :: "'f pydict \<Rightarrow> string \<Rightarrow> 'f pyval" where
  "dict_get d k = (case map_of d k of None \<Rightarrow> PNone | Some v \<Rightarrow> v)"

definition dict_get_default :: "'f pydict \<Rightarrow> string \<Rightarrow> 'f pyval \<Rightarrow> 'f pyval" where
  "dict_get_default d k dflt = (case map_of d k of None \<Rightarrow> dflt | Some v \<Rightarrow> v)"

definition has_key :: "'f pydict \<Rightarrow> string \<Rightarrow> bool" where
  "has_key d k = (map_of d k \<noteq> None)"

text \<open>
  \<open>str.strip()\<close> removes the characters for which \<open>str.isspace\<close> holds from both
  ends; among the code points below 256 these are the ones listed.
\<close>

definition py_isspace :: "char \<Rightarrow> bool" where
  "py_isspace c = ((of_char c :: nat) \<in> {9, 10, 11, 12, 13, 28, 29, 30, 31, 32, 133, 160})"

definition strip :: "string \<Rightarrow> string" where
  "strip s = rev (dropWhile py_isspace (rev (dropWhile py_isspace s)))"

fun show_nat :: "nat \<Rightarrow> string" where
  "show_nat n =
     (if n < 10 then [''0123456789'' ! n]
      else show_nat (n div 10) @ [''0123456789'' ! (n mod 10)])"

definition show_int :: "int \<Rightarrow> string" where
  "show_int i = (if i < 0 then CHR ''-'' # show_nat (nat (- i)) else show_nat (nat i))"

fun join :: "string \<Rightarrow> string list \<Rightarrow> string" where
  "join sep [] = []"
| "join sep [x] = x"
| "join sep (x # y # ys) = x @ sep @ join sep (y # ys)"

fun py_repr :: "'f builtins \<Rightarrow> 'f pyval \<Rightarrow> string" where
  "py_repr B PNone = ''None''"
| "py_repr B (PBool b) = (if b then ''True'' else ''False'')"
| "py_repr B (PInt i) = show_int i"
| "py_repr B (PFloat x) = repr_of_float B x"
| "py_repr B (PStr s) = repr_of_str B s"
| "py_repr B (PList xs) = ''['' @ join '', '' (map (py_repr B) xs) @ '']''"
| "py_repr B (PDict d) =
     ''{'' @ join '', '' (map (\<lambda>(k, v). repr_of_str B k @ '': '' @ py_repr B v) d) @ ''}''"
| "py_repr B (PDate t) = repr_of_date B t"
| "py_repr B (POid n) = repr_of_oid B n"

definition py_str :: "'f builtins \<Rightarrow> 'f pyval \<Rightarrow> string" where
  "py_str B v =
     (case v of PStr s \<Rightarrow> s | PDate t \<Rightarrow> str_of_date B t | POid n \<Rightarrow> str_of_oid B n
      | _ \<Rightarrow> py_repr B v)"

section \<open>Question generation (server.py)\<close>

text \<open>
  A generated question is the dict \<open>{"question": ..., "ideal_answer_focus": ...}\<close>
  with two text fields.
\<close>

record qrec =
  question :: string
  ideal_answer_focus :: string

type_synonym qmap = "(string \<times> qrec list) list"

text \<open>
  The exceptions raised inside the \<open>try\<close> block of \<open>generate_questions\<close>: the two
  \<open>ValueError\<close>s, each carrying the technology it prints, and the \<open>TypeError\<close> of
  \<open>tech in parsed\<close> and \<open>parsed[tech]\<close> on a reply that is not a JSON object.
\<close>

datatype shape_error =
    Fewer_than_3 string
  | Missing_key string
  | Type_error

text \<open>
  What the caller of \<open>generate_questions\<close> can receive: the exception of the call to
  the model service, which is raised outside the \<open>try\<close> and so arrives unchanged; the
  \<open>RuntimeError\<close> for a reply that is not JSON, with the raw reply; the
  \<open>RuntimeError\<close> wrapped around any other exception, with its message and the raw
  reply.
\<close>

datatype 'x gen_error =
    Transport 'x
  | Invalid_JSON string
  | Parse_failed shape_error string

definition clean_techs :: "string list \<Rightarrow> string list" where
  "clean_techs techs = map strip (filter (\<lambda>t. t \<noteq> [] \<and> strip t \<noteq> []) techs)"

text \<open>\<open>tech in parsed\<close> for a text \<open>tech\<close>.\<close>

fun py_contains :: "'f pyval \<Rightarrow> string \<Rightarrow> shape_error + bool" where
  "py_contains (PDict d) t = Inr (has_key d t)"
| "py_contains (PList xs) t = Inr (PStr t \<in> set xs)"
| "py_contains (PStr s) t = Inr (sublist t s)"
| "py_contains _ t = Inl Type_error"

text \<open>\<open>parsed[tech]\<close>, evaluated only after \<open>tech in parsed\<close> held.\<close>

fun py_getitem :: "'f pyval \<Rightarrow> string \<Rightarrow> shape_error + 'f pyval" where
  "py_getitem (PDict d) t = Inr (dict_get d t)"
| "py_getitem _ t = Inl Type_error"

text \<open>One pass of the inner loop: an element is kept when it is a dict with the key \<open>question\<close>.\<close>

definition question_entry :: "'f builtins \<Rightarrow> 'f pyval \<Rightarrow> qrec option" where
  "question_entry B item =
     (case item of
        PDict d \<Rightarrow>
          if has_key d ''question'' then
            Some \<lparr>question = strip (py_str B (dict_get_default d ''question'' (PStr ''''))),
                  ideal_answer_focus =
                    (if dict_get d ''ideal_answer_focus'' \<noteq> PNone
                     then strip (py_str B (dict_get_default d ''ideal_answer_focus'' (PStr '''')))
                     else '''')\<rparr>
          else None
      | _ \<Rightarrow> None)"

definition collect_questions :: "'f builtins \<Rightarrow> 'f pyval list \<Rightarrow> qrec list" where
  "collect_questions B items = List.map_filter (question_entry B) items"

text \<open>The loop over the cleaned technologies, with the output dict as accumulator.\<close>

fun validate_shape :: "'f builtins \<Rightarrow> 'f pyval \<Rightarrow> string list \<Rightarrow> qmap \<Rightarrow> shape_error + qmap" where
  "validate_shape B parsed [] out = Inr out"
| "validate_shape B parsed (tech # rest) out =
     (case py_contains parsed tech of
        Inl e \<Rightarrow> Inl e
      | Inr False \<Rightarrow> Inl (Missing_key tech)
      | Inr True \<Rightarrow>
          (case py_getitem parsed tech of
             Inl e \<Rightarrow> Inl e
           | Inr (PList items) \<Rightarrow>
               (let qs = collect_questions B items in
                if length qs < 3 then Inl (Fewer_than_3 tech)
                else validate_shape B parsed rest (AList.update tech (take 5 qs) out))
           | Inr _ \<Rightarrow> Inl (Missing_key tech)))"

text \<open>
  \<open>generate_questions\<close>. The call to the model service and \<open>json.loads\<close> are
  parameters: \<open>call_groq\<close> returns the raw text or the exception of the call,
  \<open>loads\<close> returns the decoded value or \<open>None\<close> for \<open>JSONDecodeError\<close>.
\<close>

definition generate_questions ::
  "'f builtins \<Rightarrow> (string list \<Rightarrow> 'x + string) \<Rightarrow> (string \<Rightarrow> 'f pyval option) \<Rightarrow>
   string list \<Rightarrow> 'x gen_error + qmap" where
  "generate_questions B call_groq loads techs =
     (if techs = [] then Inr []
      else let techs_clean = clean_techs techs in
        if techs_clean = [] then Inr []
        else case call_groq techs_clean of
               Inl e \<Rightarrow> Inl (Transport e)
             | Inr raw \<Rightarrow>
                 (case loads raw of
                    None \<Rightarrow> Inl (Invalid_JSON raw)
                  | Some parsed \<Rightarrow>
                      (case validate_shape B parsed techs_clean [] of
                         Inl e \<Rightarrow> Inl (Parse_failed e raw)
                       | Inr out \<Rightarrow> Inr out)))"

section \<open>Normalising the question mapping (app.py)\<close>

datatype app_error = Attribute_error

text \<open>The first value of the dict that is a text: \<open>next(str(v) for v in it.values() if isinstance(v, str))\<close>.\<close>

fun first_str_value :: "'f pydict \<Rightarrow> string option" where
  "first_str_value [] = None"
| "first_str_value ((k, PStr s) # d) = Some s"
| "first_str_value ((k, v) # d) = first_str_value d"

text \<open>\<open>x.strip()\<close> on an arbitrary object: only a text has the method.\<close>

definition strip_method :: "'f pyval \<Rightarrow> app_error + string" where
  "strip_method v = (case v of PStr s \<Rightarrow> Inr (strip s) | _ \<Rightarrow> Inl Attribute_error)"

text \<open>The branch of \<open>normalize_q_map\<close> for a dict element of a technology's list.\<close>

definition normalize_dict_item :: "'f builtins \<Rightarrow> 'f pydict \<Rightarrow> app_error + qrec" where
  "normalize_dict_item B it =
     (let q = py_or B (py_or B (py_or B (dict_get it ''question'') (dict_get it ''q''))
                 (dict_get it ''prompt'')) (PStr '''');
          q = (if \<not> truthy B q
               then (case first_str_value it of
                       Some s \<Rightarrow> PStr s
                     | None \<Rightarrow> PStr (py_str B (PDict it)))
               else q);
          focus = py_or B (py_or B (dict_get it ''ideal_answer_focus'') (dict_get it ''focus''))
                    (PStr '''');
          focus = (case focus of PStr s \<Rightarrow> s | _ \<Rightarrow> py_str B focus)
      in case strip_method q of
           Inl e \<Rightarrow> Inl e
         | Inr qs \<Rightarrow> Inr \<lparr>question = qs, ideal_answer_focus = strip focus\<rparr>)"

definition normalize_item :: "'f builtins \<Rightarrow> 'f pyval \<Rightarrow> app_error + qrec" where
  "normalize_item B it =
     (case it of
        PStr s \<Rightarrow> Inr \<lparr>question = strip s, ideal_answer_focus = ''''\<rparr>
      | PDict d \<Rightarrow> normalize_dict_item B d
      | _ \<Rightarrow> Inr \<lparr>question = strip (py_str B it), ideal_answer_focus = ''''\<rparr>)"

fun normalize_items :: "'f builtins \<Rightarrow> 'f pyval list \<Rightarrow> app_error + qrec list" where
  "normalize_items B [] = Inr []"
| "normalize_items B (it # its) =
     (case normalize_item B it of
        Inl e \<Rightarrow> Inl e
      | Inr r \<Rightarrow> (case normalize_items B its of Inl e \<Rightarrow> Inl e | Inr rs \<Rightarrow> Inr (r # rs)))"

definition normalize_entry :: "'f builtins \<Rightarrow> 'f pyval \<Rightarrow> app_error + qrec list" where
  "normalize_entry B items =
     (case items of
        PStr s \<Rightarrow> Inr [\<lparr>question = strip s, ideal_answer_focus = ''''\<rparr>]
      | PList its \<Rightarrow> normalize_items B its
      | _ \<Rightarrow> Inr [\<lparr>question = strip (py_str B items), ideal_answer_focus = ''''\<rparr>])"

fun normalize_loop :: "'f builtins \<Rightarrow> 'f pydict \<Rightarrow> qmap \<Rightarrow> app_error + qmap" where
  "normalize_loop B [] normalized = Inr normalized"
| "normalize_loop B ((tech, items) # rest) normalized =
     (case normalize_entry B items of
        Inl e \<Rightarrow> Inl e
      | Inr new_list \<Rightarrow> normalize_loop B rest (AList.update tech new_list normalized))"

definition normalize_q_map :: "'f builtins \<Rightarrow> 'f pyval \<Rightarrow> app_error + qmap" where
  "normalize_q_map B q_map =
     (if \<not> truthy B q_map then Inr []
      else case q_map of
             PDict d \<Rightarrow> normalize_loop B d []
           | _ \<Rightarrow> Inl Attribute_error)"

section \<open>Derived notions for the question generator\<close>

text \<open>
  The outcome of one pass of the outer loop of \<open>generate_questions\<close> for one
  technology: the exception it raises, or the list it stores in the output.
\<close>

definition check_tech :: "'f builtins \<Rightarrow> 'f pyval \<Rightarrow> string \<Rightarrow> shape_error + qrec list" where
  "check_tech B parsed tech =
     (case py_contains parsed tech of
        Inl e \<Rightarrow> Inl e
      | Inr False \<Rightarrow> Inl (Missing_key tech)
      | Inr True \<Rightarrow>
          (case py_getitem parsed tech of
             Inl e \<Rightarrow> Inl e
           | Inr (PList items) \<Rightarrow>
               (let qs = collect_questions B items in
                if length qs < 3 then Inl (Fewer_than_3 tech) else Inr (take 5 qs))
           | Inr _ \<Rightarrow> Inl (Missing_key tech)))"

definition tech_passes :: "'f builtins \<Rightarrow> 'f pyval \<Rightarrow> string \<Rightarrow> bool" where
  "tech_passes B parsed tech = (\<not> isl (check_tech B parsed tech))"

text \<open>The test of the inner loop: \<open>isinstance(item, dict) and "question" in item\<close>.\<close>

definition counts_as_question :: "'f pyval \<Rightarrow> bool" where
  "counts_as_question item = (case item of PDict d \<Rightarrow> has_key d ''question'' | _ \<Rightarrow> False)"

text \<open>Concrete built-ins and collaborators for the closed examples.\<close>

definition demo_builtins :: "unit builtins" where
  "demo_builtins =
     \<lparr>repr_of_str = (\<lambda>s. [CHR 0x27] @ s @ [CHR 0x27]),
      repr_of_float = (\<lambda>x. ''0.0''),
      float_is_zero = (\<lambda>x. True),
      str_of_date = show_nat, repr_of_date = show_nat,
      str_of_oid = show_nat, repr_of_oid = show_nat\<rparr>"

definition demo_groq :: "string list \<Rightarrow> unit + string" where
  "demo_groq techs = Inr ''raw''"

definition demo_q :: "string \<Rightarrow> unit pyval" where
  "demo_q s = PDict [(''question'', PStr s), (''ideal_answer_focus'', PStr '''')]"

definition demo_rec :: "string \<Rightarrow> qrec" where
  "demo_rec s = \<lparr>question = s, ideal_answer_focus = ''''\<rparr>"

definition three_questions :: "unit pyval" where
  "three_questions = PList [demo_q ''Q1'', demo_q ''Q2'', demo_q ''Q3'']"

definition seven_questions :: "unit pyval" where
  "seven_questions =
     PList [demo_q ''Q1'', demo_q ''Q2'', demo_q ''Q3'', demo_q ''Q4'', demo_q ''Q5'',
            demo_q ''Q6'', demo_q ''Q7'']"

definition loads_both_empty :: "string \<Rightarrow> unit pyval option" where
  "loads_both_empty raw = Some (PDict [(''A'', PList []), (''B'', PList [])])"

definition loads_nothing :: "string \<Rightarrow> unit pyval option" where
  "loads_nothing raw = Some (PDict [])"

definition loads_second_short :: "string \<Rightarrow> unit pyval option" where
  "loads_second_short raw = Some (PDict [(''A'', three_questions), (''B'', PList [demo_q ''Q1''])])"

definition loads_second_absent :: "string \<Rightarrow> unit pyval option" where
  "loads_second_absent raw = Some (PDict [(''A'', three_questions)])"

definition loads_seven :: "string \<Rightarrow> unit pyval option" where
  "loads_seven raw = Some (PDict [(''A'', seven_questions)])"

definition loads_plain_strings :: "string \<Rightarrow> unit pyval option" where
  "loads_plain_strings raw =
     Some (PDict [(''A'', three_questions),
                  (''B'', PList [PStr ''Q1'', PStr ''Q2'', PStr ''Q3'', PDict [(''q'', PStr ''Q4'')]])])"

section \<open>The candidates collection (the store behind mongo.py)\<close>

text \<open>
  \<open>mongo.py\<close> talks to one MongoDB collection through \<open>pymongo\<close>. The collection is
  modelled as the list of its documents, a document being a dict. The driver and the
  server are not code of this repository; what follows models the part of their
  documented behaviour that \<open>update_one\<close> and \<open>find_one\<close> rely on:

  \<^item> a filter \<open>{"email": e}\<close> matches a document whose field \<open>email\<close> equals \<open>e\<close> or
    is an array with the element \<open>e\<close>; the first such document is the one read or
    updated;
  \<^item> the key of an update operator is a field path in dot notation; a path descends
    into embedded documents and, by a decimal index, into arrays; missing fields on
    the way are created as embedded documents, an array is padded with nulls, and a
    path through a scalar cannot be created;
  \<^item> an update is rejected when a path has an empty segment, or when one of its paths
    is a prefix of another one (also across \<open>$set\<close>, \<open>$setOnInsert\<close> and \<open>$push\<close>);
  \<^item> \<open>$setOnInsert\<close> applies only when the update inserts; \<open>$push\<close> appends to an
    array, creates it when the field is missing and is rejected on any other value;
  \<^item> \<open>_id\<close> of a stored document cannot change; an inserted document gets a fresh
    \<open>ObjectId\<close> unless the update sets \<open>_id\<close>;
  \<^item> without a match, \<open>upsert=True\<close> inserts the document made of the filter's field
    and the update; \<open>upsert=False\<close> changes nothing and raises nothing;
  \<^item> a rejected or failed update leaves the collection as it was.

  Paths with the positional operators (a segment beginning with \<open>$\<close>) are rejected by
  this model. Every other reason for which a call can fail (the network, a unique
  index, the size of a document) is left to the environment: it decides, call by call,
  whether the call goes through.
\<close>

datatype write_error =
    Empty_field_name
  | Positional_operator
  | Conflicting_update
  | Path_not_viable
  | Not_an_array
  | Immutable_id

datatype driver_error =
    Write_error write_error
  | Driver_failure

record 'f upd =
  set_part :: "'f pydict"
  set_on_insert_part :: "'f pydict"
  push_part :: "'f pydict"

datatype 'f call =
    Server_info
  | Create_index
  | Update_one string "'f upd" bool
  | Find_one string

text \<open>
  The environment: the successive readings of \<open>datetime.utcnow()\<close>, and for each
  driver call, counted from the first one, whether it goes through.
\<close>

record env =
  clock :: "nat \<Rightarrow> nat"
  goes_through :: "nat \<Rightarrow> bool"

text \<open>
  The state: the collection, the next fresh \<open>ObjectId\<close>, the driver calls made so far,
  the number of clock readings taken so far, and the two module globals
  \<open>_db_wrapper\<close> and \<open>_db_instance\<close> (whether each is set).
\<close>

record 'f world =
  candidates :: "'f pydict list"
  next_oid :: nat
  calls :: "'f call list"
  clock_reads :: nat
  db_wrapper :: bool
  db_instance :: bool

definition utcnow :: "env \<Rightarrow> 'f world \<Rightarrow> nat \<times> 'f world" where
  "utcnow E w = (clock E (clock_reads w), w\<lparr>clock_reads := Suc (clock_reads w)\<rparr>)"

definition attempt :: "env \<Rightarrow> 'f call \<Rightarrow> 'f world \<Rightarrow> bool \<times> 'f world" where
  "attempt E c w = (goes_through E (length (calls w)), w\<lparr>calls := calls w @ [c]\<rparr>)"

subsection \<open>Field paths\<close>

fun split_dots :: "string \<Rightarrow> string list" where
  "split_dots [] = [[]]"
| "split_dots (c # cs) =
     (if c = CHR ''.'' then [] # split_dots cs
      else (case split_dots cs of
              seg # segs \<Rightarrow> (c # seg) # segs
            | [] \<Rightarrow> [[c]]))"

definition is_digit :: "char \<Rightarrow> bool" where
  "is_digit c = (c \<in> set ''0123456789'')"

fun digits_value :: "nat \<Rightarrow> string \<Rightarrow> nat" where
  "digits_value acc [] = acc"
| "digits_value acc (c # cs) = digits_value (10 * acc + (of_char c - 48)) cs"

definition array_index :: "string \<Rightarrow> nat option" where
  "array_index seg =
     (if seg \<noteq> [] \<and> list_all is_digit seg \<and> (seg = ''0'' \<or> hd seg \<noteq> CHR ''0'')
      then Some (digits_value 0 seg) else None)"

fun has_conflict :: "string list list \<Rightarrow> bool" where
  "has_conflict [] = False"
| "has_conflict (p # ps) = ((\<exists>q \<in> set ps. prefix p q \<or> prefix q p) \<or> has_conflict ps)"

definition check_paths :: "string list list \<Rightarrow> write_error option" where
  "check_paths ps =
     (if \<exists>p \<in> set ps. [] \<in> set p then Some Empty_field_name
      else if \<exists>p \<in> set ps. \<exists>seg \<in> set p. hd seg = CHR ''$'' then Some Positional_operator
      else if has_conflict ps then Some Conflicting_update
      else None)"

text \<open>The value built for a field that does not exist yet.\<close>

fun create_path ::
  "('f pyval option \<Rightarrow> write_error + 'f pyval) \<Rightarrow> string list \<Rightarrow> write_error + 'f pyval" where
  "create_path leaf [] = leaf None"
| "create_path leaf (k # ks) =
     (case create_path leaf ks of Inl e \<Rightarrow> Inl e | Inr v \<Rightarrow> Inr (PDict [(k, v)]))"

text \<open>
  \<open>modify_path leaf path cur\<close> rewrites the value \<open>cur\<close> at the end of \<open>path\<close>;
  \<open>leaf\<close> receives the value found there, if any, and returns the new one.
\<close>

fun modify_path ::
  "('f pyval option \<Rightarrow> write_error + 'f pyval) \<Rightarrow> string list \<Rightarrow> 'f pyval \<Rightarrow>
   write_error + 'f pyval" where
  "modify_path leaf [] cur = leaf (Some cur)"
| "modify_path leaf (k # ks) (PDict d) =
     (case map_of d k of
        None \<Rightarrow>
          (case create_path leaf ks of
             Inl e \<Rightarrow> Inl e
           | Inr v \<Rightarrow> Inr (PDict (d @ [(k, v)])))
      | Some sub \<Rightarrow>
          (case modify_path leaf ks sub of
             Inl e \<Rightarrow> Inl e
           | Inr v \<Rightarrow> Inr (PDict (AList.update k v d))))"
| "modify_path leaf (k # ks) (PList xs) =
     (case array_index k of
        None \<Rightarrow> Inl Path_not_viable
      | Some i \<Rightarrow>
          if i < length xs then
            (case modify_path leaf ks (xs ! i) of
               Inl e \<Rightarrow> Inl e
             | Inr v \<Rightarrow> Inr (PList (xs[i := v])))
          else
            (case create_path leaf ks of
               Inl e \<Rightarrow> Inl e
             | Inr v \<Rightarrow> Inr (PList (xs @ replicate (i - length xs) PNone @ [v]))))"
| "modify_path leaf (k # ks) cur = Inl Path_not_viable"

definition modify_doc ::
  "('f pyval option \<Rightarrow> write_error + 'f pyval) \<Rightarrow> string list \<Rightarrow> 'f pydict \<Rightarrow>
   write_error + 'f pydict" where
  "modify_doc leaf path d =
     (case modify_path leaf path (PDict d) of
        Inl e \<Rightarrow> Inl e
      | Inr (PDict d') \<Rightarrow> Inr d'
      | Inr _ \<Rightarrow> Inl Path_not_viable)"

definition leaf_set :: "'f pyval \<Rightarrow> 'f pyval option \<Rightarrow> write_error + 'f pyval" where
  "leaf_set v old = Inr v"

definition leaf_push :: "'f pyval \<Rightarrow> 'f pyval option \<Rightarrow> write_error + 'f pyval" where
  "leaf_push v old =
     (case old of
        None \<Rightarrow> Inr (PList [v])
      | Some (PList xs) \<Rightarrow> Inr (PList (xs @ [v]))
      | Some _ \<Rightarrow> Inl Not_an_array)"

fun apply_fields ::
  "('f pyval \<Rightarrow> 'f pyval option \<Rightarrow> write_error + 'f pyval) \<Rightarrow> 'f pydict \<Rightarrow> 'f pydict \<Rightarrow>
   write_error + 'f pydict" where
  "apply_fields leaf [] d = Inr d"
| "apply_fields leaf ((k, v) # rest) d =
     (case modify_doc (leaf v) (split_dots k) d of
        Inl e \<Rightarrow> Inl e
      | Inr d' \<Rightarrow> apply_fields leaf rest d')"

subsection \<open>Updating and reading the collection\<close>

definition matches :: "string \<Rightarrow> 'f pydict \<Rightarrow> bool" where
  "matches email d =
     (case map_of d ''email'' of
        Some (PStr s) \<Rightarrow> s = email
      | Some (PList xs) \<Rightarrow> PStr email \<in> set xs
      | _ \<Rightarrow> False)"

text \<open>The update of a document that the filter matched.\<close>

definition update_matched :: "'f upd \<Rightarrow> 'f pydict \<Rightarrow> write_error + 'f pydict" where
  "update_matched u d =
     (case apply_fields leaf_set (set_part u) d of
        Inl e \<Rightarrow> Inl e
      | Inr d1 \<Rightarrow>
          (case apply_fields leaf_push (push_part u) d1 of
             Inl e \<Rightarrow> Inl e
           | Inr d2 \<Rightarrow> if map_of d2 ''_id'' = map_of d ''_id'' then Inr d2 else Inl Immutable_id))"

text \<open>The document inserted by an upsert without a match.\<close>

definition inserted_doc :: "string \<Rightarrow> 'f upd \<Rightarrow> nat \<Rightarrow> write_error + 'f pydict" where
  "inserted_doc email u n =
     (case apply_fields leaf_set (set_part u) [(''email'', PStr email)] of
        Inl e \<Rightarrow> Inl e
      | Inr d1 \<Rightarrow>
          (case apply_fields leaf_set (set_on_insert_part u) d1 of
             Inl e \<Rightarrow> Inl e
           | Inr d2 \<Rightarrow>
               (case apply_fields leaf_push (push_part u) d2 of
                  Inl e \<Rightarrow> Inl e
                | Inr d3 \<Rightarrow>
                    Inr ((''_id'', dict_get_default d3 ''_id'' (POid n)) # AList.delete ''_id'' d3))))"

text \<open>
  The first document that satisfies \<open>P\<close> is replaced by its update; \<open>None\<close> when no
  document satisfies \<open>P\<close>.
\<close>

fun update_first ::
  "('a \<Rightarrow> bool) \<Rightarrow> ('a \<Rightarrow> write_error + 'a) \<Rightarrow> 'a list \<Rightarrow> (write_error + 'a list) option" where
  "update_first P f [] = None"
| "update_first P f (d # ds) =
     (if P d then Some (case f d of Inl e \<Rightarrow> Inl e | Inr d' \<Rightarrow> Inr (d' # ds))
      else (case update_first P f ds of
              None \<Rightarrow> None
            | Some (Inl e) \<Rightarrow> Some (Inl e)
            | Some (Inr ds') \<Rightarrow> Some (Inr (d # ds'))))"

definition update_docs ::
  "string \<Rightarrow> 'f upd \<Rightarrow> bool \<Rightarrow> nat \<Rightarrow> 'f pydict list \<Rightarrow> write_error + ('f pydict list \<times> nat)" where
  "update_docs email u upsert n docs =
     (case check_paths (map (\<lambda>(k, v). split_dots k)
                          (set_part u @ set_on_insert_part u @ push_part u)) of
        Some e \<Rightarrow> Inl e
      | None \<Rightarrow>
          (case update_first (matches email) (update_matched u) docs of
             Some (Inl e) \<Rightarrow> Inl e
           | Some (Inr docs') \<Rightarrow> Inr (docs', n)
           | None \<Rightarrow>
               if upsert then
                 (case inserted_doc email u n of
                    Inl e \<Rightarrow> Inl e
                  | Inr d \<Rightarrow> Inr (docs @ [d], Suc n))
               else Inr (docs, n)))"

text \<open>\<open>Collection.update_one({"email": email}, update, upsert=...)\<close>.\<close>

definition update_one ::
  "env \<Rightarrow> string \<Rightarrow> 'f upd \<Rightarrow> bool \<Rightarrow> 'f world \<Rightarrow> (driver_error + unit) \<times> 'f world" where
  "update_one E email u upsert w =
     (case attempt E (Update_one email u upsert) w of
        (False, w1) \<Rightarrow> (Inl Driver_failure, w1)
      | (True, w1) \<Rightarrow>
          (case update_docs email u upsert (next_oid w1) (candidates w1) of
             Inl e \<Rightarrow> (Inl (Write_error e), w1)
           | Inr (docs, n) \<Rightarrow> (Inr (), w1\<lparr>candidates := docs, next_oid := n\<rparr>)))"

text \<open>\<open>Collection.find_one({"email": email})\<close>.\<close>

definition find_one ::
  "env \<Rightarrow> string \<Rightarrow> 'f world \<Rightarrow> (driver_error + 'f pydict option) \<times> 'f world" where
  "find_one E email w =
     (case attempt E (Find_one email) w of
        (False, w1) \<Rightarrow> (Inl Driver_failure, w1)
      | (True, w1) \<Rightarrow> (Inr (find (matches email) (candidates w1)), w1))"

section \<open>The persistence functions (mongo.py)\<close>

text \<open>
  Every function takes the environment and the state and returns its result, or the
  exception it raises, with the state it leaves behind.
\<close>

text \<open>\<open>d.setdefault(k, v)\<close>: the key is added when it is missing, else nothing changes.\<close>

definition setdefault :: "'f pydict \<Rightarrow> string \<Rightarrow> 'f pyval \<Rightarrow> 'f pydict" where
  "setdefault d k v = (if has_key d k then d else d @ [(k, v)])"

text \<open>\<open>MongoDB.upsert_candidate\<close>.\<close>

definition upsert_candidate ::
  "env \<Rightarrow> string \<Rightarrow> 'f pydict \<Rightarrow> 'f world \<Rightarrow> (driver_error + unit) \<times> 'f world" where
  "upsert_candidate E email profile w =
     (let p = AList.delete ''answers'' profile;
          (t_upd, w1) = utcnow E w;
          p = AList.update ''updated_at'' (PDate t_upd) p;
          (t_ins, w2) = utcnow E w1
      in update_one E email
           \<lparr>set_part = p, set_on_insert_part = [(''created_at'', PDate t_ins)], push_part = []\<rparr>
           True w2)"

text \<open>\<open>MongoDB.add_answer\<close>.\<close>

definition add_answer ::
  "env \<Rightarrow> string \<Rightarrow> 'f pydict \<Rightarrow> bool \<Rightarrow> 'f world \<Rightarrow> (driver_error + unit) \<times> 'f world" where
  "add_answer E email answer upsert_candidate_if_missing w =
     (let (t_ans, w1) = utcnow E w;
          a = setdefault answer ''timestamp'' (PDate t_ans);
          (t_upd, w2) = utcnow E w1
      in update_one E email
           \<lparr>set_part = [(''updated_at'', PDate t_upd)], set_on_insert_part = [],
            push_part = [(''answers'', PDict a)]\<rparr>
           upsert_candidate_if_missing w2)"

text \<open>\<open>MongoDB.get_candidate_by_email\<close>.\<close>

definition get_candidate_by_email ::
  "env \<Rightarrow> string \<Rightarrow> 'f world \<Rightarrow> (driver_error + 'f pydict option) \<times> 'f world" where
  "get_candidate_by_email E email w = find_one E email w"

text \<open>
  \<open>MongoDB.connect\<close>, as run by the constructor: \<open>server_info()\<close> forces a round trip
  and its failure aborts the construction; a failure of \<open>create_index\<close> is swallowed by
  \<open>_ensure_indexes\<close>. The result tells whether the object was built.
\<close>

definition connect :: "env \<Rightarrow> 'f world \<Rightarrow> bool \<times> 'f world" where
  "connect E w =
     (case attempt E Server_info w of
        (False, w1) \<Rightarrow> (False, w1)
      | (True, w1) \<Rightarrow> (True, snd (attempt E Create_index w1)))"

definition get_db :: "env \<Rightarrow> 'f world \<Rightarrow> bool \<times> 'f world" where
  "get_db E w =
     (if db_instance w then (True, w)
      else (case connect E w of
              (False, w1) \<Rightarrow> (False, w1)
            | (True, w1) \<Rightarrow> (True, w1\<lparr>db_instance := True\<rparr>)))"

text \<open>\<open>init_mongo\<close>; \<open>False\<close> stands for its \<open>RuntimeError\<close>.\<close>

definition init_mongo :: "env \<Rightarrow> 'f world \<Rightarrow> bool \<times> 'f world" where
  "init_mongo E w =
     (if db_wrapper w then (True, w)
      else (case get_db E w of
              (False, w1) \<Rightarrow> (False, w1)
            | (True, w1) \<Rightarrow> (True, w1\<lparr>db_wrapper := True\<rparr>)))"

text \<open>
  \<open>_normalize_answer_input\<close>. The argument is a dict or \<open>None\<close>. The clock is read
  only when the answer has no truthy \<open>timestamp\<close>; each default is stored only when
  its key is missing.
\<close>

definition normalize_answer_input ::
  "'f builtins \<Rightarrow> env \<Rightarrow> 'f pydict option \<Rightarrow> 'f world \<Rightarrow> 'f pydict \<times> 'f world" where
  "normalize_answer_input B E ans w =
     (let a = (case ans of None \<Rightarrow> [] | Some d \<Rightarrow> d);
          a = setdefault a ''question_id''
                (py_or B (py_or B (dict_get a ''question_id'') (dict_get a ''qid'')) PNone);
          a = setdefault a ''question''
                (py_or B (py_or B (dict_get a ''question'') (dict_get a ''q'')) (PStr ''''));
          a = setdefault a ''answer''
                (py_or B (py_or B (dict_get a ''answer'') (dict_get a ''response'')) (PStr ''''));
          a = setdefault a ''tech'' (py_or B (dict_get a ''tech'') (PStr ''General''));
          a = setdefault a ''score'' (dict_get_default a ''score'' PNone);
          (stamp, w1) = (if truthy B (dict_get a ''timestamp'') then (dict_get a ''timestamp'', w)
                         else (case utcnow E w of (t, w') \<Rightarrow> (PDate t, w')))
      in (setdefault a ''timestamp'' stamp, w1))"

text \<open>The document pushed for one raw answer: the six fields read off the normalised dict.\<close>

definition ans_doc :: "'f pydict \<Rightarrow> 'f pydict" where
  "ans_doc norm =
     [(''question_id'', dict_get norm ''question_id''),
      (''question'', dict_get norm ''question''),
      (''answer'', dict_get norm ''answer''),
      (''tech'', dict_get norm ''tech''),
      (''score'', dict_get norm ''score''),
      (''timestamp'', dict_get norm ''timestamp'')]"

text \<open>The loop \<open>for raw in answers_list or []\<close>.\<close>

fun push_answers ::
  "'f builtins \<Rightarrow> env \<Rightarrow> string \<Rightarrow> 'f pydict option list \<Rightarrow> 'f world \<Rightarrow>
   (driver_error + unit) \<times> 'f world" where
  "push_answers B E email [] w = (Inr (), w)"
| "push_answers B E email (raw # rest) w =
     (case normalize_answer_input B E raw w of
        (norm, w1) \<Rightarrow>
          (case add_answer E email (ans_doc norm) True w1 of
             (Inl e, w2) \<Rightarrow> (Inl e, w2)
           | (Inr u, w2) \<Rightarrow> push_answers B E email rest w2))"

text \<open>
  The exceptions of \<open>save_candidate_and_answers\<close>: the \<open>ConnectionError\<close> of a failed
  automatic initialisation, the two \<open>ValueError\<close>s, the \<open>AttributeError\<close> of
  \<open>.strip()\<close> on a value that is not a text, and the \<open>RuntimeError\<close> wrapped around
  whatever the \<open>try\<close> block raised.
\<close>

datatype save_cause =
    Driver driver_error
  | Retrieve_failed

datatype save_error =
    Auto_init_failed
  | Candidate_not_dict
  | Email_required
  | Strip_on_non_text
  | Save_failed save_cause

definition build_profile :: "'f pydict \<Rightarrow> string \<Rightarrow> app_error + 'f pydict" where
  "build_profile candidate email =
     (case strip_method (dict_get_default candidate ''name''
                           (dict_get_default candidate ''full_name'' (PStr ''''))) of
        Inl e \<Rightarrow> Inl e
      | Inr name \<Rightarrow>
          (case strip_method (dict_get_default candidate ''phone''
                                (dict_get_default candidate ''phone_number'' (PStr ''''))) of
             Inl e \<Rightarrow> Inl e
           | Inr phone \<Rightarrow>
               Inr [(''name'', PStr name),
                    (''email'', PStr email),
                    (''phone'', PStr phone),
                    (''position'', dict_get_default candidate ''position''
                                     (dict_get_default candidate ''desired_position'' (PStr ''''))),
                    (''meta'', dict_get_default candidate ''meta''
                                 (PDict [(''status'', PStr ''in_progress'')])),
                    (''tech_stack'', dict_get_default candidate ''tech_stack'' (PList []))]))"

text \<open>The \<open>try\<close> block.\<close>

definition save_body ::
  "'f builtins \<Rightarrow> env \<Rightarrow> string \<Rightarrow> 'f pydict \<Rightarrow> 'f pydict option list \<Rightarrow> 'f world \<Rightarrow>
   (save_cause + string) \<times> 'f world" where
  "save_body B E email profile answers_list w =
     (case upsert_candidate E email profile w of
        (Inl e, w1) \<Rightarrow> (Inl (Driver e), w1)
      | (Inr u, w1) \<Rightarrow>
          (case push_answers B E email answers_list w1 of
             (Inl e, w2) \<Rightarrow> (Inl (Driver e), w2)
           | (Inr u, w2) \<Rightarrow>
               (case get_candidate_by_email E email w2 of
                  (Inl e, w3) \<Rightarrow> (Inl (Driver e), w3)
                | (Inr None, w3) \<Rightarrow> (Inl Retrieve_failed, w3)
                | (Inr (Some doc), w3) \<Rightarrow>
                    if doc = [] then (Inl Retrieve_failed, w3)
                    else (Inr (py_str B (dict_get doc ''_id'')), w3))))"

text \<open>\<open>save_candidate_and_answers\<close>.\<close>

definition save_candidate_and_answers ::
  "'f builtins \<Rightarrow> env \<Rightarrow> 'f pyval \<Rightarrow> 'f pydict option list \<Rightarrow> 'f world \<Rightarrow>
   (save_error + string) \<times> 'f world" where
  "save_candidate_and_answers B E candidate answers_list w =
     (case (if \<not> db_wrapper w then init_mongo E w else (True, w)) of
        (False, w1) \<Rightarrow> (Inl Auto_init_failed, w1)
      | (True, w1) \<Rightarrow>
          (case candidate of
             PDict c \<Rightarrow>
               (case strip_method
                       (py_or B (py_or B (py_or B (dict_get c ''email'') (dict_get c ''Email''))
                                   (dict_get c ''email_address'')) (PStr '''')) of
                  Inl e \<Rightarrow> (Inl Strip_on_non_text, w1)
                | Inr email \<Rightarrow>
                    if email = [] then (Inl Email_required, w1)
                    else (case build_profile c email of
                            Inl e \<Rightarrow> (Inl Strip_on_non_text, w1)
                          | Inr profile \<Rightarrow>
                              (case save_body B E email profile answers_list w1 of
                                 (Inl cause, w2) \<Rightarrow> (Inl (Save_failed cause), w2)
                               | (Inr cid, w2) \<Rightarrow> (Inr cid, w2))))
           | _ \<Rightarrow> (Inl Candidate_not_dict, w1)))"

text \<open>Calling \<open>add_answer\<close> once for each payload of a list, with the default flag.\<close>

fun add_answers ::
  "env \<Rightarrow> string \<Rightarrow> 'f pydict list \<Rightarrow> 'f world \<Rightarrow> (driver_error + unit) \<times> 'f world" where
  "add_answers E email [] w = (Inr (), w)"
| "add_answers E email (a # rest) w =
     (case add_answer E email a True w of
        (Inl e, w1) \<Rightarrow> (Inl e, w1)
      | (Inr u, w1) \<Rightarrow> add_answers E email rest w1)"

text \<open>Concrete environments and states for the closed examples.\<close>

definition demo_env :: env where
  "demo_env = \<lparr>clock = (\<lambda>n. 100 + n), goes_through = (\<lambda>n. True)\<rparr>"

definition demo_env_down :: env where
  "demo_env_down = \<lparr>clock = (\<lambda>n. 100 + n), goes_through = (\<lambda>n. False)\<rparr>"

definition fresh_world :: "unit world" where
  "fresh_world =
     \<lparr>candidates = [], next_oid = 0, calls = [], clock_reads = 0,
      db_wrapper = False, db_instance = False\<rparr>"

definition ready_world :: "unit world" where
  "ready_world =
     \<lparr>candidates = [], next_oid = 0, calls = [], clock_reads = 0,
      db_wrapper = True, db_instance = True\<rparr>"

definition stored_world :: "unit world" where
  "stored_world =
     \<lparr>candidates =
        [[(''_id'', POid 0), (''email'', PStr ''a@b.com''), (''created_at'', PDate 1),
          (''updated_at'', PDate 2), (''answers'', PList [PStr ''A1''])]],
      next_oid = 1, calls = [], clock_reads = 0, db_wrapper = True, db_instance = True\<rparr>"

definition demo_profile :: "unit pydict" where
  "demo_profile = [(''name'', PStr ''Ann''), (''email'', PStr ''a@b.com''), (''answers'', PList [])]"





section \<open>Derived notions for the persistence functions\<close>

text \<open>The paths that \<open>update_docs\<close> checks.\<close>

definition update_paths :: "'f upd \<Rightarrow> string list list" where
  "update_paths u =
     map (\<lambda>(k, v). split_dots k) (set_part u @ set_on_insert_part u @ push_part u)"

text \<open>The update document that \<open>upsert_candidate\<close> sends, given its two clock readings.\<close>

definition profile_update :: "nat \<Rightarrow> nat \<Rightarrow> 'f pydict \<Rightarrow> 'f upd" where
  "profile_update t_upd t_ins profile =
     \<lparr>set_part = AList.update ''updated_at'' (PDate t_upd) (AList.delete ''answers'' profile),
      set_on_insert_part = [(''created_at'', PDate t_ins)],
      push_part = []\<rparr>"

text \<open>The answer as \<open>add_answer\<close> stores it, and the update document it sends.\<close>

definition stamped :: "nat \<Rightarrow> 'f pydict \<Rightarrow> 'f pyval" where
  "stamped t_ans answer = PDict (setdefault answer ''timestamp'' (PDate t_ans))"

definition answer_update :: "nat \<Rightarrow> nat \<Rightarrow> 'f pydict \<Rightarrow> 'f upd" where
  "answer_update t_ans t_upd answer =
     \<lparr>set_part = [(''updated_at'', PDate t_upd)],
      set_on_insert_part = [],
      push_part = [(''answers'', stamped t_ans answer)]\<rparr>"

text \<open>
  A profile payload has no path into \<open>answers\<close> when none of its keys, the key
  \<open>answers\<close> itself apart, is a dotted path whose first segment is \<open>answers\<close>.
\<close>

definition no_path_into_answers :: "'f pydict \<Rightarrow> bool" where
  "no_path_into_answers profile =
     (\<forall>(k, v) \<in> set profile. k \<noteq> ''answers'' \<longrightarrow> hd (split_dots k) \<noteq> ''answers'')"

text \<open>
  A profile payload keeps the email when its only key with the first segment \<open>email\<close>,
  if any, is \<open>email\<close> itself with the email of the filter as value.
\<close>

definition keeps_email :: "string \<Rightarrow> 'f pydict \<Rightarrow> bool" where
  "keeps_email email profile =
     (\<forall>(k, v) \<in> set profile. hd (split_dots k) = ''email'' \<longrightarrow> k = ''email'' \<and> v = PStr email)"

text \<open>The document that a lookup by email returns.\<close>

definition candidate_of :: "string \<Rightarrow> 'f world \<Rightarrow> 'f pydict option" where
  "candidate_of email w = find (matches email) (candidates w)"

text \<open>The answers that \<open>add_answers\<close> stores, the first clock reading being number \<open>n\<close>.\<close>

fun stamped_answers :: "env \<Rightarrow> nat \<Rightarrow> 'f pydict list \<Rightarrow> 'f pyval list" where
  "stamped_answers E n [] = []"
| "stamped_answers E n (a # rest) = stamped (clock E n) a # stamped_answers E (n + 2) rest"

text \<open>
  The answers of a document: the elements of its array \<open>answers\<close>, none when the
  field is missing; undefined when the field holds anything but an array. The answers
  stored for an email are those of its document, none when it has no document.
\<close>

definition answers_of :: "'f pydict \<Rightarrow> 'f pyval list option" where
  "answers_of d =
     (case map_of d ''answers'' of
        None \<Rightarrow> Some []
      | Some (PList xs) \<Rightarrow> Some xs
      | Some _ \<Rightarrow> None)"

definition answers_in :: "string \<Rightarrow> 'f world \<Rightarrow> 'f pyval list option" where
  "answers_in email w =
     (case candidate_of email w of None \<Rightarrow> Some [] | Some d \<Rightarrow> answers_of d)"






section \<open>Facts about the question generator\<close>

lemma validate_shape_step:
  "validate_shape B parsed (tech # rest) out =
     (case check_tech B parsed tech of
        Inl e \<Rightarrow> Inl e
      | Inr qs \<Rightarrow> validate_shape B parsed rest (AList.update tech qs out))"
  by (simp add: check_tech_def Let_def split: sum.splits bool.splits pyval.splits)

lemma validate_shape_first_failure:
  assumes "\<forall>u \<in> set pre. tech_passes B parsed u"
    and "check_tech B parsed t = Inl e"
  shows "validate_shape B parsed (pre @ t # post) out = Inl e"
  using assms
proof (induction pre arbitrary: out)
  case Nil
  then show ?case by (simp only: append_Nil validate_shape_step) simp
next
  case (Cons u pre)
  from Cons.prems(1) obtain qs where qs: "check_tech B parsed u = Inr qs"
    by (cases "check_tech B parsed u") (auto simp: tech_passes_def)
  have "validate_shape B parsed ((u # pre) @ t # post) out =
        validate_shape B parsed (pre @ t # post) (AList.update u qs out)"
    by (simp only: append_Cons validate_shape_step qs) simp
  with Cons show ?case by simp
qed

lemma validate_shape_any_failure:
  assumes "t \<in> set ts" and "check_tech B parsed t = Inl e"
  shows "\<exists>e'. validate_shape B parsed ts out = Inl e'"
  using assms
proof (induction ts arbitrary: out)
  case Nil
  then show ?case by simp
next
  case (Cons u ts)
  show ?case
  proof (cases "check_tech B parsed u")
    case (Inl e')
    then show ?thesis by (simp only: validate_shape_step) simp
  next
    case (Inr qs)
    with Cons.prems have "t \<in> set ts" by auto
    from Cons.IH [OF this Cons.prems(2)] Inr show ?thesis
      by (simp only: validate_shape_step) simp
  qed
qed

lemma validate_shape_result:
  assumes "validate_shape B parsed ts out = Inr out'"
  shows "map_of out' t =
           (if t \<in> set ts then (case check_tech B parsed t of Inr qs \<Rightarrow> Some qs | Inl e \<Rightarrow> None)
            else map_of out t)"
  using assms
proof (induction ts arbitrary: out)
  case Nil
  then show ?case by simp
next
  case (Cons u ts)
  from Cons.prems obtain qs where qs: "check_tech B parsed u = Inr qs"
    and rest: "validate_shape B parsed ts (AList.update u qs out) = Inr out'"
    by (cases "check_tech B parsed u") (simp_all only: validate_shape_step sum.case, simp_all)
  from Cons.IH [OF rest] qs show ?case
    by (auto simp: update_conv')
qed

lemma generate_questions_parsed:
  assumes "call_groq (clean_techs techs) = Inr raw" and "loads raw = Some parsed"
    and "clean_techs techs \<noteq> []"
  shows "generate_questions B call_groq loads techs =
           (case validate_shape B parsed (clean_techs techs) [] of
              Inl e \<Rightarrow> Inl (Parse_failed e raw)
            | Inr out \<Rightarrow> Inr out)"
proof -
  from assms(3) have "techs \<noteq> []" by (auto simp: clean_techs_def)
  with assms show ?thesis by (simp add: generate_questions_def Let_def)
qed

lemma check_tech_dict:
  "check_tech B (PDict d) t =
     (case map_of d t of
        None \<Rightarrow> Inl (Missing_key t)
      | Some (PList items) \<Rightarrow>
          (if length (collect_questions B items) < 3 then Inl (Fewer_than_3 t)
           else Inr (take 5 (collect_questions B items)))
      | Some _ \<Rightarrow> Inl (Missing_key t))"
  by (simp add: check_tech_def has_key_def dict_get_def Let_def split: option.splits pyval.splits)

lemma length_collect_questions:
  "length (collect_questions B items) = length (filter counts_as_question items)"
  by (induction items)
    (auto simp: collect_questions_def map_filter_def question_entry_def counts_as_question_def
          split: pyval.splits)

section \<open>Claims about the question generator\<close>

text \<open>
  C2 (as amended). A requested technology whose entry in the decoded reply is a list
  with fewer than three valid question candidates makes question generation fail: the
  caller receives an exception and no output mapping, partial or otherwise. The
  exception is the fewer-than-three error naming that technology when every technology
  requested before it passes its own validation; the loop stops at the first
  technology that fails.
\<close>

theorem undersupply_fails:
  assumes "call_groq (clean_techs techs) = Inr raw"
    and "loads raw = Some (PDict d)"
    and "clean_techs techs = pre @ t # post"
    and "map_of d t = Some (PList items)"
    and "length (collect_questions B items) < 3"
  shows "(\<exists>e. generate_questions B call_groq loads techs = Inl (Parse_failed e raw)) \<and>
         ((\<forall>u \<in> set pre. tech_passes B (PDict d) u) \<longrightarrow>
            generate_questions B call_groq loads techs = Inl (Parse_failed (Fewer_than_3 t) raw))"
proof -
  from assms(3) have ne: "clean_techs techs \<noteq> []" and mem: "t \<in> set (clean_techs techs)"
    by auto
  have bad: "check_tech B (PDict d) t = Inl (Fewer_than_3 t)"
    using assms(4,5) by (simp add: check_tech_dict)
  have gen: "generate_questions B call_groq loads techs =
           (case validate_shape B (PDict d) (clean_techs techs) [] of
              Inl e \<Rightarrow> Inl (Parse_failed e raw)
            | Inr out \<Rightarrow> Inr out)"
    using assms(1,2) ne by (rule generate_questions_parsed)
  from validate_shape_any_failure [OF mem bad]
  obtain e' where "validate_shape B (PDict d) (clean_techs techs) [] = Inl e'" by blast
  then have first: "\<exists>e. generate_questions B call_groq loads techs = Inl (Parse_failed e raw)"
    by (simp add: gen)
  have second: "generate_questions B call_groq loads techs = Inl (Parse_failed (Fewer_than_3 t) raw)"
    if "\<forall>u \<in> set pre. tech_passes B (PDict d) u"
    using validate_shape_first_failure [OF that bad, of post "[]"] assms(3) by (simp add: gen)
  from first second show ?thesis by blast
qed

theorem undersupply_fails_witness:
  "generate_questions demo_builtins demo_groq loads_second_short [''A'', '' B '']
     = Inl (Parse_failed (Fewer_than_3 ''B'') ''raw'')"
proof -
  have ct: "clean_techs [''A'', '' B ''] = [''A''] @ ''B'' # []"
    by (simp add: clean_techs_def strip_def py_isspace_def)
  have pass: "\<forall>u \<in> set [''A'']. tech_passes demo_builtins
                 (PDict [(''A'', three_questions), (''B'', PList [demo_q ''Q1''])]) u"
    by (simp add: tech_passes_def check_tech_dict three_questions_def demo_q_def
        collect_questions_def map_filter_def question_entry_def has_key_def)
  have few: "length (collect_questions demo_builtins [demo_q ''Q1'']) < 3"
    by (simp add: collect_questions_def map_filter_def)
  have "demo_groq (clean_techs [''A'', '' B '']) = Inr ''raw''"
    by (simp add: demo_groq_def)
  moreover have "loads_second_short ''raw'' =
      Some (PDict [(''A'', three_questions), (''B'', PList [demo_q ''Q1''])])"
    by (simp add: loads_second_short_def)
  moreover have "map_of [(''A'', three_questions), (''B'', PList [demo_q ''Q1''])] ''B''
      = Some (PList [demo_q ''Q1''])"
    by simp
  ultimately show ?thesis
    using undersupply_fails [of demo_groq "[''A'', '' B '']" "''raw''" loads_second_short
      "[(''A'', three_questions), (''B'', PList [demo_q ''Q1''])]" "[''A'']" "''B''" "[]"
      "[demo_q ''Q1'']" demo_builtins] ct pass few
    by blast
qed

text \<open>
  C2 as the specification states it fails when two requested technologies are both
  undersupplied: the second one is requested and its entry has no valid candidate, yet
  the exception names the first.
\<close>

theorem undersupply_names_first_only:
  "''B'' \<in> set (clean_techs [''A'', ''B'']) \<and>
   loads_both_empty ''raw'' = Some (PDict [(''A'', PList []), (''B'', PList [])]) \<and>
   length (collect_questions demo_builtins []) < 3 \<and>
   generate_questions demo_builtins demo_groq loads_both_empty [''A'', ''B'']
     = Inl (Parse_failed (Fewer_than_3 ''A'') ''raw'') \<and>
   generate_questions demo_builtins demo_groq loads_both_empty [''A'', ''B'']
     \<noteq> Inl (Parse_failed (Fewer_than_3 ''B'') ''raw'')"
  by (simp add: generate_questions_def clean_techs_def strip_def py_isspace_def demo_groq_def
      loads_both_empty_def has_key_def dict_get_def collect_questions_def map_filter_def)
text \<open>
  C3 (as amended). A requested technology that is not a key of the decoded reply makes
  question generation fail rather than return a result, and the exception is neither
  the one of the transport nor the one for a reply that is not JSON. It is the
  missing-key error naming that technology when every technology requested before it
  passes its own validation; the loop stops at the first technology that fails.
\<close>

theorem missing_technology_fails:
  assumes "call_groq (clean_techs techs) = Inr raw"
    and "loads raw = Some (PDict d)"
    and "clean_techs techs = pre @ t # post"
    and "map_of d t = None"
  shows "(\<exists>e. generate_questions B call_groq loads techs = Inl (Parse_failed e raw)) \<and>
         (\<forall>x. generate_questions B call_groq loads techs \<noteq> Inl (Transport x)) \<and>
         (\<forall>r. generate_questions B call_groq loads techs \<noteq> Inl (Invalid_JSON r)) \<and>
         ((\<forall>u \<in> set pre. tech_passes B (PDict d) u) \<longrightarrow>
            generate_questions B call_groq loads techs = Inl (Parse_failed (Missing_key t) raw))"
proof -
  from assms(3) have ne: "clean_techs techs \<noteq> []" and mem: "t \<in> set (clean_techs techs)"
    by auto
  have bad: "check_tech B (PDict d) t = Inl (Missing_key t)"
    using assms(4) by (simp add: check_tech_dict)
  have gen: "generate_questions B call_groq loads techs =
           (case validate_shape B (PDict d) (clean_techs techs) [] of
              Inl e \<Rightarrow> Inl (Parse_failed e raw)
            | Inr out \<Rightarrow> Inr out)"
    using assms(1,2) ne by (rule generate_questions_parsed)
  from validate_shape_any_failure [OF mem bad]
  obtain e' where e': "validate_shape B (PDict d) (clean_techs techs) [] = Inl e'" by blast
  then have first: "generate_questions B call_groq loads techs = Inl (Parse_failed e' raw)"
    by (simp add: gen)
  have second: "generate_questions B call_groq loads techs = Inl (Parse_failed (Missing_key t) raw)"
    if "\<forall>u \<in> set pre. tech_passes B (PDict d) u"
    using validate_shape_first_failure [OF that bad, of post "[]"] assms(3) by (simp add: gen)
  from first second show ?thesis by simp
qed

theorem missing_technology_fails_witness:
  "generate_questions demo_builtins demo_groq loads_second_absent [''A'', ''B'']
     = Inl (Parse_failed (Missing_key ''B'') ''raw'')"
proof -
  have ct: "clean_techs [''A'', ''B''] = [''A''] @ ''B'' # []"
    by (simp add: clean_techs_def strip_def py_isspace_def)
  have pass: "\<forall>u \<in> set [''A'']. tech_passes demo_builtins (PDict [(''A'', three_questions)]) u"
    by (simp add: tech_passes_def check_tech_dict three_questions_def demo_q_def
        collect_questions_def map_filter_def question_entry_def has_key_def)
  have "demo_groq (clean_techs [''A'', ''B'']) = Inr ''raw''"
    by (simp add: demo_groq_def)
  moreover have "loads_second_absent ''raw'' = Some (PDict [(''A'', three_questions)])"
    by (simp add: loads_second_absent_def)
  moreover have "map_of [(''A'', three_questions)] ''B'' = None"
    by simp
  ultimately show ?thesis
    using missing_technology_fails [of demo_groq "[''A'', ''B'']" "''raw''" loads_second_absent
      "[(''A'', three_questions)]" "[''A'']" "''B''" "[]" demo_builtins] ct pass
    by blast
qed

text \<open>
  C3 as the specification states it fails when two requested technologies are both
  absent from the reply: the second one is requested and absent, yet the exception
  names the first.
\<close>

theorem missing_names_first_only:
  "''B'' \<in> set (clean_techs [''A'', ''B'']) \<and>
   loads_nothing ''raw'' = Some (PDict []) \<and>
   map_of ([] :: (string \<times> unit pyval) list) ''B'' = None \<and>
   generate_questions demo_builtins demo_groq loads_nothing [''A'', ''B'']
     = Inl (Parse_failed (Missing_key ''A'') ''raw'') \<and>
   generate_questions demo_builtins demo_groq loads_nothing [''A'', ''B'']
     \<noteq> Inl (Parse_failed (Missing_key ''B'') ''raw'')"
  by (simp add: generate_questions_def clean_techs_def strip_def py_isspace_def demo_groq_def
      loads_nothing_def has_key_def)

text \<open>
  C4. When question generation returns a mapping, a requested technology whose entry
  in the decoded reply holds more than five valid question candidates is mapped to
  exactly the first five of them, in their order in the reply.
\<close>

theorem oversupply_truncated:
  assumes "generate_questions B call_groq loads techs = Inr out"
    and "call_groq (clean_techs techs) = Inr raw"
    and "loads raw = Some (PDict d)"
    and "t \<in> set (clean_techs techs)"
    and "map_of d t = Some (PList items)"
    and "5 < length (collect_questions B items)"
  shows "map_of out t = Some (take 5 (collect_questions B items)) \<and>
         length (take 5 (collect_questions B items)) = 5"
proof -
  from assms(4) have ne: "clean_techs techs \<noteq> []" by auto
  have gen: "generate_questions B call_groq loads techs =
           (case validate_shape B (PDict d) (clean_techs techs) [] of
              Inl e \<Rightarrow> Inl (Parse_failed e raw)
            | Inr out \<Rightarrow> Inr out)"
    using assms(2,3) ne by (rule generate_questions_parsed)
  with assms(1) have ok: "validate_shape B (PDict d) (clean_techs techs) [] = Inr out"
    by (simp split: sum.splits)
  have "check_tech B (PDict d) t = Inr (take 5 (collect_questions B items))"
    using assms(5,6) by (simp add: check_tech_dict)
  with validate_shape_result [OF ok, of t] assms(4,6) show ?thesis by simp
qed

theorem oversupply_truncated_witness:
  "map_of (projr (generate_questions demo_builtins demo_groq loads_seven [''A''])) ''A''
     = Some [demo_rec ''Q1'', demo_rec ''Q2'', demo_rec ''Q3'', demo_rec ''Q4'', demo_rec ''Q5'']"
proof -
  have ct: "clean_techs [''A''] = [''A'']"
    by (simp add: clean_techs_def strip_def py_isspace_def)
  have cq: "collect_questions demo_builtins
        [demo_q ''Q1'', demo_q ''Q2'', demo_q ''Q3'', demo_q ''Q4'', demo_q ''Q5'',
         demo_q ''Q6'', demo_q ''Q7'']
      = [demo_rec ''Q1'', demo_rec ''Q2'', demo_rec ''Q3'', demo_rec ''Q4'', demo_rec ''Q5'',
         demo_rec ''Q6'', demo_rec ''Q7'']"
    by (simp add: collect_questions_def map_filter_def question_entry_def demo_q_def demo_rec_def
        has_key_def dict_get_def dict_get_default_def py_str_def strip_def py_isspace_def)
  have run: "generate_questions demo_builtins demo_groq loads_seven [''A''] =
      Inr [(''A'', [demo_rec ''Q1'', demo_rec ''Q2'', demo_rec ''Q3'', demo_rec ''Q4'',
                    demo_rec ''Q5''])]"
    by (simp add: generate_questions_def ct demo_groq_def loads_seven_def seven_questions_def
        has_key_def dict_get_def cq)
  have "demo_groq (clean_techs [''A'']) = Inr ''raw''"
    by (simp add: demo_groq_def)
  moreover have "loads_seven ''raw'' = Some (PDict [(''A'', seven_questions)])"
    by (simp add: loads_seven_def)
  moreover have "map_of [(''A'', seven_questions)] ''A'' =
      Some (PList [demo_q ''Q1'', demo_q ''Q2'', demo_q ''Q3'', demo_q ''Q4'', demo_q ''Q5'',
         demo_q ''Q6'', demo_q ''Q7''])"
    by (simp add: seven_questions_def)
  ultimately show ?thesis
    using oversupply_truncated [of demo_builtins demo_groq loads_seven "[''A'']"
      "[(''A'', [demo_rec ''Q1'', demo_rec ''Q2'', demo_rec ''Q3'', demo_rec ''Q4'',
                    demo_rec ''Q5''])]" "''raw''" "[(''A'', seven_questions)]" "''A''"
      "[demo_q ''Q1'', demo_q ''Q2'', demo_q ''Q3'', demo_q ''Q4'', demo_q ''Q5'',
         demo_q ''Q6'', demo_q ''Q7'']"] run ct cq
    by simp
qed

text \<open>
  C10. In \<open>generate_questions\<close> an element of a technology's array counts towards the
  total only when it is a mapping with the key \<open>question\<close>; every other element is
  dropped without notice before the count is compared with three. So a technology whose
  array holds only plain texts and mappings without that key, however many, is left
  with no question: generation fails, and with the fewer-than-three error naming that
  technology when the technologies requested before it pass.
\<close>

theorem plain_strings_discarded:
  assumes "call_groq (clean_techs techs) = Inr raw"
    and "loads raw = Some (PDict d)"
    and "clean_techs techs = pre @ t # post"
    and "\<forall>u \<in> set pre. tech_passes B (PDict d) u"
    and "map_of d t = Some (PList items)"
    and "\<forall>it \<in> set items. (\<exists>s. it = PStr s) \<or> (\<exists>m. it = PDict m \<and> \<not> has_key m ''question'')"
  shows "length (collect_questions B any_items) = length (filter counts_as_question any_items) \<and>
         collect_questions B items = [] \<and>
         generate_questions B call_groq loads techs = Inl (Parse_failed (Fewer_than_3 t) raw)"
proof -
  from assms(3) have ne: "clean_techs techs \<noteq> []" by auto
  have "filter counts_as_question items = []"
    using assms(6) by (auto simp: filter_empty_conv counts_as_question_def)
  then have none: "collect_questions B items = []"
    using length_collect_questions [of B items] by simp
  then have bad: "check_tech B (PDict d) t = Inl (Fewer_than_3 t)"
    using assms(5) by (simp add: check_tech_dict)
  have gen: "generate_questions B call_groq loads techs =
           (case validate_shape B (PDict d) (clean_techs techs) [] of
              Inl e \<Rightarrow> Inl (Parse_failed e raw)
            | Inr out \<Rightarrow> Inr out)"
    using assms(1,2) ne by (rule generate_questions_parsed)
  have "generate_questions B call_groq loads techs = Inl (Parse_failed (Fewer_than_3 t) raw)"
    using validate_shape_first_failure [OF assms(4) bad, of post "[]"] assms(3) by (simp add: gen)
  with none length_collect_questions [of B any_items] show ?thesis by simp
qed

theorem plain_strings_discarded_witness:
  "collect_questions demo_builtins
      [PStr ''Q1'', PStr ''Q2'', PStr ''Q3'', PDict [(''q'', PStr ''Q4'')]] = [] \<and>
   generate_questions demo_builtins demo_groq loads_plain_strings [''A'', ''B'']
     = Inl (Parse_failed (Fewer_than_3 ''B'') ''raw'')"
proof -
  have ct: "clean_techs [''A'', ''B''] = [''A''] @ ''B'' # []"
    by (simp add: clean_techs_def strip_def py_isspace_def)
  have pass: "\<forall>u \<in> set [''A'']. tech_passes demo_builtins
      (PDict [(''A'', three_questions),
              (''B'', PList [PStr ''Q1'', PStr ''Q2'', PStr ''Q3'', PDict [(''q'', PStr ''Q4'')]])]) u"
    by (simp add: tech_passes_def check_tech_dict three_questions_def demo_q_def
        collect_questions_def map_filter_def question_entry_def has_key_def)
  have shape: "\<forall>it \<in> set [PStr ''Q1'', PStr ''Q2'', PStr ''Q3'', PDict [(''q'', PStr ''Q4'')]].
      (\<exists>s. it = (PStr s :: unit pyval)) \<or> (\<exists>m. it = PDict m \<and> \<not> has_key m ''question'')"
    by (simp add: has_key_def)
  have "demo_groq (clean_techs [''A'', ''B'']) = Inr ''raw''"
    by (simp add: demo_groq_def)
  moreover have "loads_plain_strings ''raw'' =
      Some (PDict [(''A'', three_questions),
              (''B'', PList [PStr ''Q1'', PStr ''Q2'', PStr ''Q3'', PDict [(''q'', PStr ''Q4'')]])])"
    by (simp add: loads_plain_strings_def)
  moreover have "map_of [(''A'', three_questions),
              (''B'', PList [PStr ''Q1'', PStr ''Q2'', PStr ''Q3'', PDict [(''q'', PStr ''Q4'')]])] ''B''
      = Some (PList [PStr ''Q1'', PStr ''Q2'', PStr ''Q3'', PDict [(''q'', PStr ''Q4'')]])"
    by simp
  ultimately show ?thesis
    using plain_strings_discarded [of demo_groq "[''A'', ''B'']" "''raw''" loads_plain_strings
      "[(''A'', three_questions),
              (''B'', PList [PStr ''Q1'', PStr ''Q2'', PStr ''Q3'', PDict [(''q'', PStr ''Q4'')]])]"
      "[''A'']" "''B''" "[]" demo_builtins
      "[PStr ''Q1'', PStr ''Q2'', PStr ''Q3'', PDict [(''q'', PStr ''Q4'')]]"] ct pass shape
    by blast
qed

section \<open>Claims about the normaliser of the form\<close>

lemma py_or_chain3:
  "py_or B (py_or B (py_or B a b) c) (PStr '''') =
     (case find (truthy B) [a, b, c] of Some v \<Rightarrow> v | None \<Rightarrow> PStr '''')"
  by (simp add: py_or_def)

lemma py_or_chain2:
  "py_or B (py_or B a b) (PStr '''') =
     (case find (truthy B) [a, b] of Some v \<Rightarrow> v | None \<Rightarrow> PStr '''')"
  by (simp add: py_or_def)

lemma find_truthy: "find (truthy B) vs = Some v \<Longrightarrow> truthy B v"
  by (induction vs) (auto split: if_splits)

text \<open>
  C1 (as amended). For a mapping element of a technology's list, \<open>normalize_q_map\<close>
  takes the question from the first of the keys \<open>question\<close>, \<open>q\<close>, \<open>prompt\<close> whose
  value is truthy; a key that is present with an empty or otherwise falsy value is
  passed over like an absent one. When that value is a text, the question is the text,
  stripped. When none of the three keys has a truthy value, the question is the first
  text-valued field of the mapping, else \<open>str\<close> of the whole mapping, stripped. The
  focus is the first truthy value among \<open>ideal_answer_focus\<close> and \<open>focus\<close>, a value
  that is not a text being passed through \<open>str\<close>, stripped; it is the empty text when
  neither key has a truthy value.
\<close>

theorem normalize_dict_item_truthy_keys:
  "(find (truthy B) [dict_get it ''question'', dict_get it ''q'', dict_get it ''prompt'']
      = Some (PStr s) \<longrightarrow>
    normalize_dict_item B it =
      Inr \<lparr>question = strip s,
           ideal_answer_focus =
             (case find (truthy B) [dict_get it ''ideal_answer_focus'', dict_get it ''focus''] of
                None \<Rightarrow> ''''
              | Some (PStr f) \<Rightarrow> strip f
              | Some v \<Rightarrow> strip (py_str B v))\<rparr>) \<and>
   (find (truthy B) [dict_get it ''question'', dict_get it ''q'', dict_get it ''prompt'']
      = None \<longrightarrow>
    normalize_dict_item B it =
      Inr \<lparr>question =
             strip (case first_str_value it of Some t \<Rightarrow> t | None \<Rightarrow> py_str B (PDict it)),
           ideal_answer_focus =
             (case find (truthy B) [dict_get it ''ideal_answer_focus'', dict_get it ''focus''] of
                None \<Rightarrow> ''''
              | Some (PStr f) \<Rightarrow> strip f
              | Some v \<Rightarrow> strip (py_str B v))\<rparr>)"
proof -
  define Q where "Q = find (truthy B) [dict_get it ''question'', dict_get it ''q'', dict_get it ''prompt'']"
  define F where "F = find (truthy B) [dict_get it ''ideal_answer_focus'', dict_get it ''focus'']"
  have alt: "normalize_dict_item B it =
     (let q = (case Q of Some v \<Rightarrow> v | None \<Rightarrow> PStr '''');
          q = (if \<not> truthy B q
               then (case first_str_value it of
                       Some s \<Rightarrow> PStr s
                     | None \<Rightarrow> PStr (py_str B (PDict it)))
               else q);
          focus = (case F of Some v \<Rightarrow> v | None \<Rightarrow> PStr '''');
          focus = (case focus of PStr s \<Rightarrow> s | _ \<Rightarrow> py_str B focus)
      in case strip_method q of
           Inl e \<Rightarrow> Inl e
         | Inr qs \<Rightarrow> Inr \<lparr>question = qs, ideal_answer_focus = strip focus\<rparr>)"
    unfolding Q_def F_def normalize_dict_item_def
    by (simp only: py_or_chain3) (simp only: py_or_chain2)
  have one: "normalize_dict_item B it =
      Inr \<lparr>question = strip s,
           ideal_answer_focus =
             (case F of None \<Rightarrow> '''' | Some (PStr f) \<Rightarrow> strip f | Some v \<Rightarrow> strip (py_str B v))\<rparr>"
    if h: "Q = Some (PStr s)"
  proof -
    from h have "truthy B (PStr s)" unfolding Q_def by (rule find_truthy)
    then have "s \<noteq> []" by simp
    then show ?thesis
      by (simp add: alt h Let_def strip_method_def strip_def split: option.splits pyval.splits)
  qed
  have two: "normalize_dict_item B it =
      Inr \<lparr>question =
             strip (case first_str_value it of Some t \<Rightarrow> t | None \<Rightarrow> py_str B (PDict it)),
           ideal_answer_focus =
             (case F of None \<Rightarrow> '''' | Some (PStr f) \<Rightarrow> strip f | Some v \<Rightarrow> strip (py_str B v))\<rparr>"
    if h: "Q = None"
    by (simp add: alt h Let_def strip_method_def strip_def split: option.splits pyval.splits)
  from one two show ?thesis unfolding Q_def F_def by blast
qed

theorem normalize_dict_item_truthy_keys_witness:
  "normalize_dict_item demo_builtins
      [(''question'', PStr ''''), (''prompt'', PStr '' Why? ''), (''focus'', PInt 7)]
     = Inr \<lparr>question = ''Why?'', ideal_answer_focus = ''7''\<rparr> \<and>
   normalize_dict_item demo_builtins
      [(''id'', PInt 3), (''text'', PStr ''How?''), (''ideal_answer_focus'', PStr '' depth '')]
     = Inr \<lparr>question = ''How?'', ideal_answer_focus = ''depth''\<rparr>"
proof -
  have a: "find (truthy demo_builtins)
      [dict_get [(''question'', PStr ''''), (''prompt'', PStr '' Why? ''), (''focus'', PInt 7)] ''question'',
       dict_get [(''question'', PStr ''''), (''prompt'', PStr '' Why? ''), (''focus'', PInt 7)] ''q'',
       dict_get [(''question'', PStr ''''), (''prompt'', PStr '' Why? ''), (''focus'', PInt 7)] ''prompt'']
      = Some (PStr '' Why? '')"
    by (simp add: dict_get_def)
  have b: "find (truthy demo_builtins)
      [dict_get [(''id'', PInt 3), (''text'', PStr ''How?''), (''ideal_answer_focus'', PStr '' depth '')] ''question'',
       dict_get [(''id'', PInt 3), (''text'', PStr ''How?''), (''ideal_answer_focus'', PStr '' depth '')] ''q'',
       dict_get [(''id'', PInt 3), (''text'', PStr ''How?''), (''ideal_answer_focus'', PStr '' depth '')] ''prompt'']
      = None"
    by (simp add: dict_get_def)
  have seven: "show_nat 7 = ''7''"
    by simp
  from normalize_dict_item_truthy_keys [of demo_builtins
      "[(''question'', PStr ''''), (''prompt'', PStr '' Why? ''), (''focus'', PInt 7)]" "'' Why? ''"] a
  have first: "normalize_dict_item demo_builtins
      [(''question'', PStr ''''), (''prompt'', PStr '' Why? ''), (''focus'', PInt 7)]
     = Inr \<lparr>question = ''Why?'', ideal_answer_focus = ''7''\<rparr>"
    by (simp add: dict_get_def strip_def py_isspace_def py_str_def show_int_def seven)
  from normalize_dict_item_truthy_keys [of demo_builtins
      "[(''id'', PInt 3), (''text'', PStr ''How?''), (''ideal_answer_focus'', PStr '' depth '')]"] b
  have second: "normalize_dict_item demo_builtins
      [(''id'', PInt 3), (''text'', PStr ''How?''), (''ideal_answer_focus'', PStr '' depth '')]
     = Inr \<lparr>question = ''How?'', ideal_answer_focus = ''depth''\<rparr>"
    by (simp add: dict_get_def strip_def py_isspace_def)
  from first second show ?thesis by simp
qed

text \<open>
  C1 as the specification states it fails on a mapping whose \<open>question\<close> key is
  present with an empty text: the first present key is \<open>question\<close>, yet the question
  comes from \<open>q\<close>. It fails also on a focus that is the number zero: the focus is not
  its \<open>str\<close>, which is \<open>0\<close>, but the empty text.
\<close>

theorem first_present_key_not_used:
  "has_key [(''question'', PStr ''''), (''q'', PStr ''X'') :: string \<times> unit pyval] ''question'' \<and>
   dict_get [(''question'', PStr ''''), (''q'', PStr ''X'') :: string \<times> unit pyval] ''question''
     = PStr '''' \<and>
   normalize_dict_item demo_builtins [(''question'', PStr ''''), (''q'', PStr ''X'')]
     = Inr \<lparr>question = ''X'', ideal_answer_focus = ''''\<rparr> \<and>
   dict_get [(''question'', PStr ''Q''), (''ideal_answer_focus'', PInt 0) :: string \<times> unit pyval]
       ''ideal_answer_focus'' = PInt 0 \<and>
   py_str demo_builtins (PInt 0) = ''0'' \<and>
   normalize_dict_item demo_builtins [(''question'', PStr ''Q''), (''ideal_answer_focus'', PInt 0)]
     = Inr \<lparr>question = ''Q'', ideal_answer_focus = ''''\<rparr>"
  by (simp add: has_key_def dict_get_def normalize_dict_item_def py_or_def strip_method_def
      strip_def py_isspace_def py_str_def show_int_def)

section \<open>Facts about the collection\<close>

lemma split_dots_nonempty: "split_dots s \<noteq> []"
  by (induction s) (auto split: list.splits)

lemma update_first_None: "update_first P f ds = None \<longleftrightarrow> find P ds = None"
  by (induction ds) (auto split: option.splits sum.splits)

lemma paths_of_add_answer:
  "check_paths (map (\<lambda>(k, v). split_dots k)
      ([(''updated_at'', x)] @ [] @ [(''answers'', y)])) = None"
  by (simp add: check_paths_def)

lemma inserted_by_add_answer:
  "inserted_doc email
      \<lparr>set_part = [(''updated_at'', x)], set_on_insert_part = [], push_part = [(''answers'', y)]\<rparr> n
   = Inr [(''_id'', POid n), (''email'', PStr email), (''updated_at'', x), (''answers'', PList [y])]"
  by (simp add: inserted_doc_def modify_doc_def leaf_set_def leaf_push_def dict_get_default_def)

section \<open>Facts about field paths and updates\<close>

lemma modify_doc_Cons:
  "modify_doc leaf (k # ks) d =
     (case map_of d k of
        None \<Rightarrow>
          (case create_path leaf ks of Inl e \<Rightarrow> Inl e | Inr v \<Rightarrow> Inr (d @ [(k, v)]))
      | Some sub \<Rightarrow>
          (case modify_path leaf ks sub of Inl e \<Rightarrow> Inl e | Inr v \<Rightarrow> Inr (AList.update k v d)))"
  by (simp add: modify_doc_def split: option.splits sum.splits)

lemma modify_doc_frame:
  assumes "modify_doc leaf (k # ks) d = Inr d'" and "k' \<noteq> k"
  shows "map_of d' k' = map_of d k'"
  using assms
  by (auto simp: modify_doc_Cons update_conv' map_add_def split: option.splits sum.splits)

lemma apply_fields_frame:
  assumes "apply_fields leaf fs d = Inr d'"
    and "\<forall>(k, v) \<in> set fs. hd (split_dots k) \<noteq> f"
  shows "map_of d' f = map_of d f"
  using assms
proof (induction fs arbitrary: d)
  case Nil
  then show ?case by simp
next
  case (Cons kv fs)
  obtain k v where kv: "kv = (k, v)" by (cases kv)
  obtain s ss where sp: "split_dots k = s # ss"
    using split_dots_nonempty [of k] by (cases "split_dots k") auto
  from Cons.prems(1) kv obtain d1 where d1: "modify_doc (leaf v) (split_dots k) d = Inr d1"
    and rest: "apply_fields leaf fs d1 = Inr d'"
    by (cases "modify_doc (leaf v) (split_dots k) d") auto
  from Cons.prems(2) kv sp have "f \<noteq> s" by auto
  with d1 sp have "map_of d1 f = map_of d f"
    by (simp add: modify_doc_frame)
  moreover from Cons.prems(2) have "\<forall>(k, v) \<in> set fs. hd (split_dots k) \<noteq> f" by simp
  from Cons.IH [OF rest this] have "map_of d' f = map_of d1 f" .
  ultimately show ?case by simp
qed

lemma modify_doc_set_single:
  "\<exists>d'. modify_doc (leaf_set v) [k] d = Inr d' \<and> map_of d' k = Some v"
  by (cases "map_of d k") (simp_all add: modify_doc_Cons leaf_set_def update_conv' map_add_def)

lemma apply_fields_append:
  "apply_fields leaf (fs @ gs) d =
     (case apply_fields leaf fs d of Inl e \<Rightarrow> Inl e | Inr d1 \<Rightarrow> apply_fields leaf gs d1)"
  by (induction fs arbitrary: d) (auto split: sum.splits)

lemma apply_fields_set_exact:
  assumes "apply_fields leaf_set (pre @ (k, v) # post) d = Inr d'"
    and "split_dots k = [k]"
    and "\<forall>(k', v') \<in> set post. hd (split_dots k') \<noteq> k"
  shows "map_of d' k = Some v"
proof -
  from assms(1) obtain d1 where "apply_fields leaf_set pre d = Inr d1"
    and step: "apply_fields leaf_set ((k, v) # post) d1 = Inr d'"
    by (auto simp: apply_fields_append split: sum.splits)
  from modify_doc_set_single [of v k d1] obtain d2
    where d2: "modify_doc (leaf_set v) [k] d1 = Inr d2" and hit: "map_of d2 k = Some v"
    by blast
  from step d2 assms(2) have "apply_fields leaf_set post d2 = Inr d'" by simp
  from apply_fields_frame [OF this assms(3)] hit show ?thesis by simp
qed

lemma has_conflict_append:
  assumes "\<not> has_conflict (ps @ qs)" and "p \<in> set ps" and "q \<in> set qs"
  shows "\<not> prefix p q \<and> \<not> prefix q p"
  using assms by (induction ps) auto

lemma has_conflict_appendD1: "\<not> has_conflict (ps @ qs) \<Longrightarrow> \<not> has_conflict ps"
  by (induction ps) auto

lemma has_conflict_appendD2: "\<not> has_conflict (ps @ qs) \<Longrightarrow> \<not> has_conflict qs"
  by (induction ps) auto

lemma check_paths_NoneD:
  assumes "check_paths ps = None"
  shows "\<not> has_conflict ps"
  using assms by (auto simp: check_paths_def split: if_splits)

lemma singleton_prefix_hd:
  assumes "\<not> prefix [k] q" and "q \<noteq> []"
  shows "hd q \<noteq> k"
  using assms by (cases q) auto

section \<open>Facts about the upsert of a profile\<close>

lemma upsert_candidate_unfold:
  "upsert_candidate E email profile w =
     update_one E email
       (profile_update (clock E (clock_reads w)) (clock E (Suc (clock_reads w))) profile) True
       (w\<lparr>clock_reads := Suc (Suc (clock_reads w))\<rparr>)"
  by (simp add: upsert_candidate_def utcnow_def profile_update_def Let_def)

lemma add_answer_unfold:
  "add_answer E email a flag w =
     update_one E email
       (answer_update (clock E (clock_reads w)) (clock E (Suc (clock_reads w))) a) flag
       (w\<lparr>clock_reads := Suc (Suc (clock_reads w))\<rparr>)"
  by (simp add: add_answer_def utcnow_def answer_update_def stamped_def Let_def)

lemma update_docs_unfold:
  "update_docs email u upsert n docs =
     (case check_paths (update_paths u) of
        Some e \<Rightarrow> Inl e
      | None \<Rightarrow>
          (case update_first (matches email) (update_matched u) docs of
             Some (Inl e) \<Rightarrow> Inl e
           | Some (Inr docs') \<Rightarrow> Inr (docs', n)
           | None \<Rightarrow>
               if upsert then
                 (case inserted_doc email u n of
                    Inl e \<Rightarrow> Inl e
                  | Inr d \<Rightarrow> Inr (docs @ [d], Suc n))
               else Inr (docs, n)))"
  by (simp add: update_docs_def update_paths_def)

lemma update_one_cases:
  obtains (down) "\<not> goes_through E (length (calls w))"
      "update_one E email u upsert w = (Inl Driver_failure, w\<lparr>calls := calls w @ [Update_one email u upsert]\<rparr>)"
  | (rejected) e where "goes_through E (length (calls w))"
      "update_docs email u upsert (next_oid w) (candidates w) = Inl e"
      "update_one E email u upsert w =
         (Inl (Write_error e), w\<lparr>calls := calls w @ [Update_one email u upsert]\<rparr>)"
  | (applied) docs n where "goes_through E (length (calls w))"
      "update_docs email u upsert (next_oid w) (candidates w) = Inr (docs, n)"
      "update_one E email u upsert w =
         (Inr (), w\<lparr>calls := calls w @ [Update_one email u upsert],
                     candidates := docs, next_oid := n\<rparr>)"
proof (cases "goes_through E (length (calls w))")
  case False
  then show ?thesis
    by (intro down) (simp_all add: update_one_def attempt_def)
next
  case True
  show ?thesis
  proof (cases "update_docs email u upsert (next_oid w) (candidates w)")
    case (Inl e)
    with True show ?thesis
      by (intro rejected [of e]) (simp_all add: update_one_def attempt_def)
  next
    case (Inr r)
    obtain docs n where "r = (docs, n)" by (cases r)
    with True Inr show ?thesis
      by (intro applied [of docs n]) (simp_all add: update_one_def attempt_def)
  qed
qed

lemma update_first_rel:
  assumes "update_first P g docs = Some (Inr docs')"
    and "\<And>d d'. P d \<Longrightarrow> g d = Inr d' \<Longrightarrow> R d d'"
    and "\<And>d. R d d"
  shows "list_all2 R docs docs'"
  using assms(1)
proof (induction docs arbitrary: docs')
  case Nil
  then show ?case by simp
next
  case (Cons d ds)
  show ?case
  proof (cases "P d")
    case True
    with Cons.prems obtain d' where "g d = Inr d'" and "docs' = d' # ds"
      by (cases "g d") auto
    with True assms(2,3) show ?thesis
      by (simp add: list_all2_refl)
  next
    case False
    with Cons.prems obtain ds' where "update_first P g ds = Some (Inr ds')" and "docs' = d # ds'"
      by (auto split: option.splits sum.splits)
    with Cons.IH assms(3) show ?thesis by simp
  qed
qed

lemma update_first_find:
  assumes "update_first P g docs = Some (Inr docs')"
  shows "\<exists>d d'. find P docs = Some d \<and> g d = Inr d' \<and> (P d' \<longrightarrow> find P docs' = Some d')"
  using assms
proof (induction docs arbitrary: docs')
  case Nil
  then show ?case by simp
next
  case (Cons d ds)
  show ?case
  proof (cases "P d")
    case True
    with Cons.prems obtain d' where "g d = Inr d'" and "docs' = d' # ds"
      by (cases "g d") auto
    with True show ?thesis by simp
  next
    case False
    with Cons.prems obtain ds' where "update_first P g ds = Some (Inr ds')" and "docs' = d # ds'"
      by (auto split: option.splits sum.splits)
    with Cons.IH [of ds'] False show ?thesis by auto
  qed
qed

lemma find_append_new:
  assumes "find P docs = None" and "P d"
  shows "find P (docs @ [d]) = Some d"
  using assms by (induction docs) (auto split: if_splits)

lemma update_docs_rel:
  assumes "update_docs email u upsert n docs = Inr (docs', n')"
    and "\<And>d d'. check_paths (update_paths u) = None \<Longrightarrow> matches email d \<Longrightarrow>
            update_matched u d = Inr d' \<Longrightarrow> R d d'"
    and "\<And>d. R d d"
  shows "length docs \<le> length docs' \<and> (\<forall>i < length docs. R (docs ! i) (docs' ! i))"
proof -
  from assms(1) have ok: "check_paths (update_paths u) = None"
    by (auto simp: update_docs_unfold split: option.splits)
  show ?thesis
  proof (cases "update_first (matches email) (update_matched u) docs")
    case None
    with assms(1) ok have "docs' = docs \<or> (\<exists>d. docs' = docs @ [d])"
      by (auto simp: update_docs_unfold split: if_splits sum.splits)
    with assms(3) show ?thesis by (auto simp: nth_append)
  next
    case (Some r)
    with assms(1) ok have "update_first (matches email) (update_matched u) docs = Some (Inr docs')"
      by (auto simp: update_docs_unfold split: sum.splits)
    from update_first_rel [of "matches email" "update_matched u" docs docs' R, OF this]
      assms(2) [OF ok] assms(3)
    have "list_all2 R docs docs'" by blast
    then show ?thesis
      by (auto simp: list_all2_conv_all_nth)
  qed
qed

lemma update_one_success:
  assumes "update_one E email u upsert w = (Inr x, w')"
  obtains docs n where "goes_through E (length (calls w))"
    and "update_docs email u upsert (next_oid w) (candidates w) = Inr (docs, n)"
    and "w' = w\<lparr>calls := calls w @ [Update_one email u upsert], candidates := docs, next_oid := n\<rparr>"
  by (rule update_one_cases [of E w email u upsert]) (use assms in auto)
lemma set_update_cases:
  assumes "(k, v) \<in> set (AList.update a x l)"
  shows "(k, v) \<in> set l \<or> (k, v) = (a, x)"
  using assms by (induction l) (auto split: if_splits)

lemma update_entry_present: "(a, x) \<in> set (AList.update a x l)"
  by (induction l) auto

lemma set_delete_cases:
  assumes "(k, v) \<in> set (AList.delete a l)"
  shows "(k, v) \<in> set l \<and> k \<noteq> a"
  using assms by (induction l) (auto split: if_splits)

lemma split_dots_updated_at: "split_dots ''updated_at'' = [''updated_at'']"
  by simp

lemma split_dots_email: "split_dots ''email'' = [''email'']"
  by simp

lemma no_conflict_isolates:
  assumes "\<not> has_conflict (map (\<lambda>(k, v). split_dots k) (fs @ gs))"
    and "(k, v) \<in> set fs"
    and "split_dots k = [k]"
  shows "\<exists>pre post. fs = pre @ (k, v) # post \<and>
           (\<forall>(k', v') \<in> set post. hd (split_dots k') \<noteq> k)"
proof -
  from assms(2) obtain pre post where fs: "fs = pre @ (k, v) # post"
    by (auto dest: split_list)
  from assms(1) have "\<not> has_conflict (map (\<lambda>(k, v). split_dots k) fs)"
    by (simp add: has_conflict_appendD1)
  with fs have "\<not> has_conflict (split_dots k # map (\<lambda>(k, v). split_dots k) post)"
    using has_conflict_appendD2 [of "map (\<lambda>(k, v). split_dots k) pre"
        "split_dots k # map (\<lambda>(k, v). split_dots k) post"]
    by simp
  then have "\<forall>(k', v') \<in> set post. \<not> prefix [k] (split_dots k')"
    using assms(3) by auto
  then have "\<forall>(k', v') \<in> set post. hd (split_dots k') \<noteq> k"
    using singleton_prefix_hd split_dots_nonempty by fastforce
  with fs show ?thesis by blast
qed

lemma no_conflict_other_operator:
  assumes "\<not> has_conflict (map (\<lambda>(k, v). split_dots k) (fs @ gs))"
    and "(g, x) \<in> set gs"
    and "split_dots g = [g]"
  shows "\<forall>(k, v) \<in> set fs. hd (split_dots k) \<noteq> g"
proof -
  have "hd (split_dots k) \<noteq> g" if "(k, v) \<in> set fs" for k v
  proof -
    from that have "split_dots k \<in> set (map (\<lambda>(k, v). split_dots k) fs)" by force
    moreover from assms(2) have "split_dots g \<in> set (map (\<lambda>(k, v). split_dots k) gs)" by force
    ultimately have "\<not> prefix (split_dots g) (split_dots k)"
      using has_conflict_append [of "map (\<lambda>(k, v). split_dots k) fs"
          "map (\<lambda>(k, v). split_dots k) gs" "split_dots k" "split_dots g"] assms(1)
      by simp
    with assms(3) show ?thesis
      using singleton_prefix_hd split_dots_nonempty by metis
  qed
  then show ?thesis by blast
qed

lemma update_matched_set_only:
  assumes "push_part u = []"
  shows "update_matched u d =
     (case apply_fields leaf_set (set_part u) d of
        Inl e \<Rightarrow> Inl e
      | Inr d1 \<Rightarrow> if map_of d1 ''_id'' = map_of d ''_id'' then Inr d1 else Inl Immutable_id)"
  using assms by (simp add: update_matched_def split: sum.splits)

lemma profile_update_paths:
  "update_paths (profile_update t t2 profile) =
     map (\<lambda>(k, v). split_dots k)
       (AList.update ''updated_at'' (PDate t) (AList.delete ''answers'' profile) @
        [(''created_at'', PDate t2)])"
  by (simp add: update_paths_def profile_update_def)

lemma profile_matched_created_at:
  assumes "check_paths (update_paths (profile_update t t2 profile)) = None"
    and "update_matched (profile_update t t2 profile) d = Inr d'"
  shows "map_of d' ''created_at'' = map_of d ''created_at''"
proof -
  let ?S = "AList.update ''updated_at'' (PDate t) (AList.delete ''answers'' profile)"
  have nc: "\<not> has_conflict (map (\<lambda>(k, v). split_dots k)
        (?S @ [(''created_at'', PDate t2)]))"
    using check_paths_NoneD [OF assms(1)] unfolding profile_update_paths .
  have "\<forall>(k, v) \<in> set ?S. hd (split_dots k) \<noteq> ''created_at''"
    by (rule no_conflict_other_operator [OF nc, of "''created_at''" "PDate t2"]) simp_all
  moreover from assms(2) have "apply_fields leaf_set ?S d = Inr d'"
    by (simp add: update_matched_set_only profile_update_def split: sum.splits if_splits)
  ultimately show ?thesis by (rule apply_fields_frame [rotated])
qed

lemma profile_set_part_answers:
  assumes "no_path_into_answers profile"
  shows "\<forall>(k, v) \<in> set (AList.update ''updated_at'' (PDate t) (AList.delete ''answers'' profile)).
           hd (split_dots k) \<noteq> ''answers''"
proof -
  have "hd (split_dots k) \<noteq> ''answers''"
    if "(k, v) \<in> set (AList.update ''updated_at'' (PDate t) (AList.delete ''answers'' profile))"
    for k v
  proof -
    from set_update_cases [OF that]
    show ?thesis
    proof
      assume "(k, v) \<in> set (AList.delete ''answers'' profile)"
      from set_delete_cases [OF this] assms show ?thesis
        by (auto simp: no_path_into_answers_def)
    next
      assume "(k, v) = (''updated_at'', PDate t)"
      then show ?thesis by simp
    qed
  qed
  then show ?thesis by blast
qed

lemma profile_matched_answers:
  assumes "no_path_into_answers profile"
    and "update_matched (profile_update t t2 profile) d = Inr d'"
  shows "map_of d' ''answers'' = map_of d ''answers''"
proof -
  let ?S = "AList.update ''updated_at'' (PDate t) (AList.delete ''answers'' profile)"
  from assms(2) have "apply_fields leaf_set ?S d = Inr d'"
    by (simp add: update_matched_set_only profile_update_def split: sum.splits if_splits)
  then show ?thesis
    using profile_set_part_answers [OF assms(1)] by (rule apply_fields_frame)
qed

lemma profile_applied_updated_at:
  assumes "check_paths (update_paths (profile_update t t2 profile)) = None"
    and "apply_fields leaf_set
           (AList.update ''updated_at'' (PDate t) (AList.delete ''answers'' profile)) d = Inr d'"
  shows "map_of d' ''updated_at'' = Some (PDate t)"
proof -
  let ?S = "AList.update ''updated_at'' (PDate t) (AList.delete ''answers'' profile)"
  have nc: "\<not> has_conflict (map (\<lambda>(k, v). split_dots k)
        (?S @ [(''created_at'', PDate t2)]))"
    using check_paths_NoneD [OF assms(1)] unfolding profile_update_paths .
  from no_conflict_isolates [OF nc update_entry_present split_dots_updated_at]
  obtain pre post where "?S = pre @ (''updated_at'', PDate t) # post"
    and "\<forall>(k', v') \<in> set post. hd (split_dots k') \<noteq> ''updated_at''"
    by blast
  with assms(2) show ?thesis
    using apply_fields_set_exact [of pre "''updated_at''" "PDate t" post d d']
    by simp
qed

lemma profile_applied_email:
  assumes "check_paths (update_paths (profile_update t t2 profile)) = None"
    and "keeps_email email profile"
    and "apply_fields leaf_set
           (AList.update ''updated_at'' (PDate t) (AList.delete ''answers'' profile)) d = Inr d'"
  shows "map_of d' ''email'' = map_of d ''email'' \<or> map_of d' ''email'' = Some (PStr email)"
proof -
  let ?S = "AList.update ''updated_at'' (PDate t) (AList.delete ''answers'' profile)"
  have nc: "\<not> has_conflict (map (\<lambda>(k, v). split_dots k)
        (?S @ [(''created_at'', PDate t2)]))"
    using check_paths_NoneD [OF assms(1)] unfolding profile_update_paths .
  have mine: "k = ''email'' \<and> v = PStr email"
    if "(k, v) \<in> set ?S" and "hd (split_dots k) = ''email''" for k v
  proof -
    from set_update_cases [OF that(1)] that(2)
    have "(k, v) \<in> set (AList.delete ''answers'' profile)" by auto
    from set_delete_cases [OF this] have "(k, v) \<in> set profile" by simp
    with assms(2) that(2) show ?thesis by (auto simp: keeps_email_def)
  qed
  show ?thesis
  proof (cases "\<forall>(k, v) \<in> set ?S. hd (split_dots k) \<noteq> ''email''")
    case True
    from apply_fields_frame [OF assms(3) True] show ?thesis by simp
  next
    case False
    then obtain k v where "(k, v) \<in> set ?S" and "hd (split_dots k) = ''email''" by auto
    with mine have "(''email'', PStr email) \<in> set ?S" by blast
    from no_conflict_isolates [OF nc this split_dots_email]
    obtain pre post where "?S = pre @ (''email'', PStr email) # post"
      and "\<forall>(k', v') \<in> set post. hd (split_dots k') \<noteq> ''email''"
      by blast
    with assms(3) have "map_of d' ''email'' = Some (PStr email)"
      using apply_fields_set_exact [of pre "''email''" "PStr email" post d d']
      by simp
    then show ?thesis by simp
  qed
qed
lemma matches_same_email:
  "map_of d' ''email'' = map_of d ''email'' \<Longrightarrow> matches email d' = matches email d"
  by (simp add: matches_def)

lemma matches_set_email:
  "map_of d' ''email'' = Some (PStr email) \<Longrightarrow> matches email d'"
  by (simp add: matches_def)

lemma map_of_with_id:
  assumes "k \<noteq> ''_id''"
  shows "map_of ((''_id'', x) # AList.delete ''_id'' d) k = map_of d k"
  using assms by (simp add: delete_conv')

lemma profile_inserted:
  assumes "check_paths (update_paths (profile_update t t2 profile)) = None"
    and "keeps_email email profile"
    and "inserted_doc email (profile_update t t2 profile) n = Inr dn"
  shows "map_of dn ''email'' = Some (PStr email) \<and> map_of dn ''updated_at'' = Some (PDate t)"
proof -
  let ?S = "AList.update ''updated_at'' (PDate t) (AList.delete ''answers'' profile)"
  from assms(3) obtain d1 d2 where d1: "apply_fields leaf_set ?S [(''email'', PStr email)] = Inr d1"
    and d2: "apply_fields leaf_set [(''created_at'', PDate t2)] d1 = Inr d2"
    and dn: "dn = (''_id'', dict_get_default d2 ''_id'' (POid n)) # AList.delete ''_id'' d2"
    by (auto simp: inserted_doc_def profile_update_def split: sum.splits)
  from profile_applied_email [OF assms(1,2) d1]
  have "map_of d1 ''email'' = Some (PStr email)" by auto
  moreover from profile_applied_updated_at [OF assms(1) d1]
  have "map_of d1 ''updated_at'' = Some (PDate t)" .
  moreover have "map_of d2 ''email'' = map_of d1 ''email''"
    by (rule apply_fields_frame [OF d2]) simp
  moreover have "map_of d2 ''updated_at'' = map_of d1 ''updated_at''"
    by (rule apply_fields_frame [OF d2]) simp
  ultimately show ?thesis
    by (simp add: dn map_of_with_id del: map_of.simps)
qed

lemma upsert_success_find:
  assumes "upsert_candidate E email profile w = (Inr (), w')"
    and "keeps_email email profile"
  shows "\<exists>d'. candidate_of email w' = Some d' \<and>
           map_of d' ''updated_at'' = Some (PDate (clock E (clock_reads w))) \<and>
           (\<forall>d. candidate_of email w = Some d \<longrightarrow>
              map_of d' ''created_at'' = map_of d ''created_at'' \<and>
              (no_path_into_answers profile \<longrightarrow> map_of d' ''answers'' = map_of d ''answers''))"
    and "clock_reads w' = Suc (Suc (clock_reads w))"
proof -
  let ?t = "clock E (clock_reads w)" and ?t2 = "clock E (Suc (clock_reads w))"
  let ?u = "profile_update ?t ?t2 profile"
  let ?w = "w\<lparr>clock_reads := Suc (Suc (clock_reads w))\<rparr>"
  from assms(1) have run: "update_one E email ?u True ?w = (Inr (), w')"
    by (simp add: upsert_candidate_unfold)
  obtain docs n where upd0: "update_docs email ?u True (next_oid ?w) (candidates ?w) = Inr (docs, n)"
    and w': "w' = ?w\<lparr>calls := calls ?w @ [Update_one email ?u True], candidates := docs, next_oid := n\<rparr>"
    by (rule update_one_success [OF run])
  from upd0 have upd: "update_docs email ?u True (next_oid w) (candidates w) = Inr (docs, n)"
    by simp
  from w' show "clock_reads w' = Suc (Suc (clock_reads w))" by simp
  from upd have ok: "check_paths (update_paths ?u) = None"
    by (auto simp: update_docs_unfold split: option.splits)
  from w' have cands: "candidate_of email w' = find (matches email) docs"
    by (simp add: candidate_of_def)
  show "\<exists>d'. candidate_of email w' = Some d' \<and>
           map_of d' ''updated_at'' = Some (PDate ?t) \<and>
           (\<forall>d. candidate_of email w = Some d \<longrightarrow>
              map_of d' ''created_at'' = map_of d ''created_at'' \<and>
              (no_path_into_answers profile \<longrightarrow> map_of d' ''answers'' = map_of d ''answers''))"
  proof (cases "update_first (matches email) (update_matched ?u) (candidates w)")
    case None
    then have absent: "candidate_of email w = None"
      by (simp add: update_first_None candidate_of_def)
    from upd ok None obtain dn where ins: "inserted_doc email ?u (next_oid w) = Inr dn"
      and docs: "docs = candidates w @ [dn]"
      by (auto simp: update_docs_unfold split: sum.splits)
    from profile_inserted [OF ok assms(2) ins]
    have em: "map_of dn ''email'' = Some (PStr email)"
      and up: "map_of dn ''updated_at'' = Some (PDate ?t)" by simp_all
    from absent have "find (matches email) (candidates w) = None"
      by (simp add: candidate_of_def)
    from find_append_new [OF this matches_set_email [OF em]] docs
    have "candidate_of email w' = Some dn" by (simp add: cands)
    with up absent show ?thesis by simp
  next
    case (Some r)
    with upd ok have uf: "update_first (matches email) (update_matched ?u) (candidates w) = Some (Inr docs)"
      by (auto simp: update_docs_unfold split: sum.splits)
    from update_first_find [OF uf] obtain d d' where d: "find (matches email) (candidates w) = Some d"
      and dd': "update_matched ?u d = Inr d'"
      and refound: "matches email d' \<longrightarrow> find (matches email) docs = Some d'"
      by blast
    from dd' have app: "apply_fields leaf_set
        (AList.update ''updated_at'' (PDate ?t) (AList.delete ''answers'' profile)) d = Inr d'"
      by (simp add: update_matched_set_only profile_update_def split: sum.splits if_splits)
    from d have "matches email d" by (auto simp: find_Some_iff)
    with profile_applied_email [OF ok assms(2) app] have "matches email d'"
      using matches_same_email [of d' d email] matches_set_email [of d' email] by auto
    with refound have "candidate_of email w' = Some d'" by (simp add: cands)
    moreover from profile_applied_updated_at [OF ok app]
    have "map_of d' ''updated_at'' = Some (PDate ?t)" .
    moreover from profile_matched_created_at [OF ok dd']
    have "map_of d' ''created_at'' = map_of d ''created_at''" .
    moreover have "map_of d' ''answers'' = map_of d ''answers''" if "no_path_into_answers profile"
      using that dd' by (rule profile_matched_answers)
    ultimately show ?thesis using d by (simp add: candidate_of_def)
  qed
qed

lemma upsert_frame:
  assumes "upsert_candidate E email profile w = (r, w')"
  shows "length (candidates w) \<le> length (candidates w') \<and>
         (\<forall>i < length (candidates w).
            map_of (candidates w' ! i) ''created_at'' = map_of (candidates w ! i) ''created_at'' \<and>
            (no_path_into_answers profile \<longrightarrow>
               map_of (candidates w' ! i) ''answers'' = map_of (candidates w ! i) ''answers''))"
proof -
  let ?t = "clock E (clock_reads w)" and ?t2 = "clock E (Suc (clock_reads w))"
  let ?u = "profile_update ?t ?t2 profile"
  let ?w = "w\<lparr>clock_reads := Suc (Suc (clock_reads w))\<rparr>"
  let ?R = "\<lambda>d d'. map_of d' ''created_at'' = map_of d ''created_at'' \<and>
            (no_path_into_answers profile \<longrightarrow> map_of d' ''answers'' = map_of d ''answers'')"
  from assms have run: "update_one E email ?u True ?w = (r, w')"
    by (simp add: upsert_candidate_unfold)
  show ?thesis
  proof (rule update_one_cases [of E ?w email ?u True])
    assume "update_one E email ?u True ?w =
      (Inl Driver_failure, ?w\<lparr>calls := calls ?w @ [Update_one email ?u True]\<rparr>)"
    with run show ?thesis by auto
  next
    fix e assume "update_one E email ?u True ?w =
      (Inl (Write_error e), ?w\<lparr>calls := calls ?w @ [Update_one email ?u True]\<rparr>)"
    with run show ?thesis by auto
  next
    fix docs n
    assume upd: "update_docs email ?u True (next_oid ?w) (candidates ?w) = Inr (docs, n)"
      and res: "update_one E email ?u True ?w =
        (Inr (), ?w\<lparr>calls := calls ?w @ [Update_one email ?u True], candidates := docs,
                    next_oid := n\<rparr>)"
    from res run have cw: "candidates w' = docs" by auto
    have "length (candidates ?w) \<le> length docs \<and>
          (\<forall>i < length (candidates ?w). ?R (candidates ?w ! i) (docs ! i))"
    proof (rule update_docs_rel [OF upd])
      fix d d'
      assume "check_paths (update_paths ?u) = None" and "update_matched ?u d = Inr d'"
      then show "?R d d'"
        using profile_matched_created_at profile_matched_answers by blast
    qed simp
    with cw show ?thesis by simp
  qed
qed

section \<open>Facts about appending an answer\<close>

lemma answer_update_paths:
  "check_paths (update_paths (answer_update t1 t2 a)) = None"
  by (simp add: update_paths_def answer_update_def check_paths_def)

lemma push_on_answers:
  assumes "answers_of d = Some xs"
  shows "\<exists>d'. modify_doc (leaf_push v) [''answers''] d = Inr d' \<and>
           map_of d' ''answers'' = Some (PList (xs @ [v])) \<and>
           (\<forall>k. k \<noteq> ''answers'' \<longrightarrow> map_of d' k = map_of d k)"
proof (cases "map_of d ''answers''")
  case None
  with assms have "xs = []" by (simp add: answers_of_def)
  with None show ?thesis
    by (auto simp: modify_doc_Cons leaf_push_def map_add_def split: option.splits)
next
  case (Some old)
  with assms have "old = PList xs"
    by (simp add: answers_of_def split: pyval.splits)
  with Some show ?thesis
    by (simp add: modify_doc_Cons leaf_push_def update_conv')
qed

lemma set_single_frame:
  "\<exists>d'. modify_doc (leaf_set v) [k] d = Inr d' \<and> map_of d' k = Some v \<and>
        (\<forall>k'. k' \<noteq> k \<longrightarrow> map_of d' k' = map_of d k')"
  by (cases "map_of d k")
    (auto simp: modify_doc_Cons leaf_set_def update_conv' map_add_def split: option.splits)

lemma update_one_applied:
  assumes "goes_through E (length (calls w))"
    and "update_docs email u upsert (next_oid w) (candidates w) = Inr (docs, n)"
  shows "update_one E email u upsert w =
           (Inr (), w\<lparr>calls := calls w @ [Update_one email u upsert],
                       candidates := docs, next_oid := n\<rparr>)"
  using assms by (simp add: update_one_def attempt_def)

lemma answer_matched:
  assumes "answers_of d = Some xs"
  shows "\<exists>d'. update_matched (answer_update t1 t2 a) d = Inr d' \<and>
           map_of d' ''answers'' = Some (PList (xs @ [stamped t1 a])) \<and>
           map_of d' ''updated_at'' = Some (PDate t2) \<and>
           (\<forall>k. k \<noteq> ''answers'' \<and> k \<noteq> ''updated_at'' \<longrightarrow> map_of d' k = map_of d k)"
proof -
  from set_single_frame [of "PDate t2" "''updated_at''" d]
  obtain d1 where d1: "modify_doc (leaf_set (PDate t2)) [''updated_at''] d = Inr d1"
    and u1: "map_of d1 ''updated_at'' = Some (PDate t2)"
    and f1: "\<forall>k'. k' \<noteq> ''updated_at'' \<longrightarrow> map_of d1 k' = map_of d k'"
    by blast
  from f1 assms have "answers_of d1 = Some xs"
    by (simp add: answers_of_def)
  from push_on_answers [OF this, of "stamped t1 a"]
  obtain d2 where d2: "modify_doc (leaf_push (stamped t1 a)) [''answers''] d1 = Inr d2"
    and a2: "map_of d2 ''answers'' = Some (PList (xs @ [stamped t1 a]))"
    and f2: "\<forall>k. k \<noteq> ''answers'' \<longrightarrow> map_of d2 k = map_of d1 k"
    by blast
  from f1 f2 have "map_of d2 ''_id'' = map_of d ''_id''" by simp
  with d1 d2 have "update_matched (answer_update t1 t2 a) d = Inr d2"
    by (simp add: update_matched_def answer_update_def)
  moreover from u1 f2 have "map_of d2 ''updated_at'' = Some (PDate t2)" by simp
  moreover from f1 f2 have "\<forall>k. k \<noteq> ''answers'' \<and> k \<noteq> ''updated_at'' \<longrightarrow> map_of d2 k = map_of d k"
    by simp
  ultimately show ?thesis using a2 by blast
qed

lemma update_first_hit:
  assumes "find P docs = Some d" and "g d = Inr d'" and "P d'"
  shows "\<exists>docs'. update_first P g docs = Some (Inr docs') \<and> find P docs' = Some d'"
  using assms by (induction docs) (auto split: if_splits)

lemma add_answer_docs_fresh:
  assumes "candidate_of email w = None" and "answers_in email w = Some xs"
  shows "\<exists>docs n d'. update_docs email (answer_update t1 t2 a) True (next_oid w) (candidates w)
            = Inr (docs, n) \<and>
          find (matches email) docs = Some d' \<and>
          map_of d' ''answers'' = Some (PList (xs @ [stamped t1 a])) \<and>
          map_of d' ''updated_at'' = Some (PDate t2)"
proof -
  from assms(1) have nf: "find (matches email) (candidates w) = None"
    by (simp add: candidate_of_def)
  then have none: "update_first (matches email) (update_matched (answer_update t1 t2 a))
      (candidates w) = None"
    by (simp add: update_first_None)
  define dn where "dn = [(''_id'', POid (next_oid w)), (''email'', PStr email),
       (''updated_at'', PDate t2), (''answers'', PList [stamped t1 a])]"
  from assms have xs: "xs = []" by (simp add: answers_in_def)
  have ins: "inserted_doc email (answer_update t1 t2 a) (next_oid w) = Inr dn"
    unfolding answer_update_def dn_def by (rule inserted_by_add_answer)
  have "matches email dn"
    by (simp add: matches_def dn_def)
  with nf have found: "find (matches email) (candidates w @ [dn]) = Some dn"
    by (rule find_append_new)
  have upd: "update_docs email (answer_update t1 t2 a) True (next_oid w) (candidates w) =
        Inr (candidates w @ [dn], Suc (next_oid w))"
    by (simp add: update_docs_unfold answer_update_paths none ins)
  have "map_of dn ''answers'' = Some (PList (xs @ [stamped t1 a]))"
    and "map_of dn ''updated_at'' = Some (PDate t2)"
    by (simp_all add: xs dn_def)
  with found upd show ?thesis by blast
qed
lemma add_answer_docs_stored:
  assumes "candidate_of email w = Some d" and "answers_in email w = Some xs"
  shows "\<exists>docs n d'. update_docs email (answer_update t1 t2 a) True (next_oid w) (candidates w)
            = Inr (docs, n) \<and>
          find (matches email) docs = Some d' \<and>
          map_of d' ''answers'' = Some (PList (xs @ [stamped t1 a])) \<and>
          map_of d' ''updated_at'' = Some (PDate t2)"
proof -
  from assms have ao: "answers_of d = Some xs" by (simp add: answers_in_def)
  from answer_matched [OF ao, of t1 t2 a]
  obtain d' where upd: "update_matched (answer_update t1 t2 a) d = Inr d'"
    and ans: "map_of d' ''answers'' = Some (PList (xs @ [stamped t1 a]))"
    and stamp: "map_of d' ''updated_at'' = Some (PDate t2)"
    and frame: "\<forall>k. k \<noteq> ''answers'' \<and> k \<noteq> ''updated_at'' \<longrightarrow> map_of d' k = map_of d k"
    by blast
  from assms(1) have fd: "find (matches email) (candidates w) = Some d"
    by (simp add: candidate_of_def)
  then have "matches email d" by (auto simp: find_Some_iff)
  moreover from frame have "map_of d' ''email'' = map_of d ''email''" by simp
  ultimately have "matches email d'"
    using matches_same_email [of d' d email] by simp
  from update_first_hit [where P = "matches email" and g = "update_matched (answer_update t1 t2 a)",
      OF fd upd this]
  obtain docs' where uf: "update_first (matches email)
        (update_matched (answer_update t1 t2 a)) (candidates w) = Some (Inr docs')"
    and found: "find (matches email) docs' = Some d'"
    by blast
  have "update_docs email (answer_update t1 t2 a) True (next_oid w) (candidates w)
      = Inr (docs', next_oid w)"
    by (simp add: update_docs_unfold answer_update_paths uf)
  with found ans stamp show ?thesis by blast
qed

lemma add_answer_appends:
  assumes "goes_through E (length (calls w))"
    and "answers_in email w = Some xs"
  shows "\<exists>w' d'. add_answer E email a True w = (Inr (), w') \<and>
           candidate_of email w' = Some d' \<and>
           map_of d' ''answers'' = Some (PList (xs @ [stamped (clock E (clock_reads w)) a])) \<and>
           map_of d' ''updated_at'' = Some (PDate (clock E (Suc (clock_reads w)))) \<and>
           clock_reads w' = Suc (Suc (clock_reads w)) \<and>
           calls w' = calls w @
             [Update_one email
                (answer_update (clock E (clock_reads w)) (clock E (Suc (clock_reads w))) a) True] \<and>
           db_wrapper w' = db_wrapper w \<and> db_instance w' = db_instance w"
proof -
  define t1 where "t1 = clock E (clock_reads w)"
  define t2 where "t2 = clock E (Suc (clock_reads w))"
  define u where "u = answer_update t1 t2 a"
  define v where "v = w\<lparr>clock_reads := Suc (Suc (clock_reads w))\<rparr>"
  have "\<exists>docs n d'. update_docs email u True (next_oid w) (candidates w) = Inr (docs, n) \<and>
          find (matches email) docs = Some d' \<and>
          map_of d' ''answers'' = Some (PList (xs @ [stamped t1 a])) \<and>
          map_of d' ''updated_at'' = Some (PDate t2)"
    unfolding u_def
    using add_answer_docs_fresh [OF _ assms(2)] add_answer_docs_stored [OF _ assms(2)]
    by (cases "candidate_of email w") blast+
  then obtain docs n d' where upd: "update_docs email u True (next_oid v) (candidates v) = Inr (docs, n)"
    and found: "find (matches email) docs = Some d'"
    and ans: "map_of d' ''answers'' = Some (PList (xs @ [stamped t1 a]))"
    and stamp: "map_of d' ''updated_at'' = Some (PDate t2)"
    unfolding v_def by auto
  from assms(1) have "goes_through E (length (calls v))" by (simp add: v_def)
  from update_one_applied [OF this upd]
  have run: "add_answer E email a True w =
      (Inr (), v\<lparr>calls := calls v @ [Update_one email u True], candidates := docs,
                  next_oid := n\<rparr>)"
    by (simp only: add_answer_unfold v_def u_def t1_def t2_def)
  have "candidate_of email
      (v\<lparr>calls := calls v @ [Update_one email u True], candidates := docs, next_oid := n\<rparr>)
      = Some d'"
    using found by (simp add: candidate_of_def)
  with run ans stamp show ?thesis
    by (simp add: v_def u_def t1_def t2_def)
qed


section \<open>Claims about appending an answer\<close>

text \<open>
  C6 (as amended). When no document of the collection matches the email,
  \<open>add_answer\<close> with \<open>upsert_candidate_if_missing=False\<close> raises nothing of its own:
  if the driver call goes through it returns normally and the collection is left as it
  was (the answer is dropped); only a failure of the call itself is raised. With the
  flag true, the default, the parent document is created, holding the email, the
  answer as the one element of \<open>answers\<close>, and \<open>updated_at\<close>.
\<close>

theorem add_answer_without_candidate:
  assumes "find (matches email) (candidates w) = None"
  shows "add_answer E email a False w =
           ((if goes_through E (length (calls w)) then Inr () else Inl Driver_failure),
            w\<lparr>clock_reads := Suc (Suc (clock_reads w)),
               calls := calls w @
                 [Update_one email
                    \<lparr>set_part = [(''updated_at'', PDate (clock E (Suc (clock_reads w))))],
                     set_on_insert_part = [],
                     push_part = [(''answers'',
                        PDict (setdefault a ''timestamp'' (PDate (clock E (clock_reads w)))))]\<rparr>
                    False]\<rparr>) \<and>
         (goes_through E (length (calls w)) \<longrightarrow>
            fst (add_answer E email a True w) = Inr () \<and>
            candidates (snd (add_answer E email a True w)) =
              candidates w @
                [[(''_id'', POid (next_oid w)), (''email'', PStr email),
                  (''updated_at'', PDate (clock E (Suc (clock_reads w)))),
                  (''answers'',
                   PList [PDict (setdefault a ''timestamp'' (PDate (clock E (clock_reads w))))])]])"
proof -
  from assms have none: "\<And>g. update_first (matches email) g (candidates w) = None"
    by (simp add: update_first_None)
  have off: "add_answer E email a False w =
           ((if goes_through E (length (calls w)) then Inr () else Inl Driver_failure),
            w\<lparr>clock_reads := Suc (Suc (clock_reads w)),
               calls := calls w @
                 [Update_one email
                    \<lparr>set_part = [(''updated_at'', PDate (clock E (Suc (clock_reads w))))],
                     set_on_insert_part = [],
                     push_part = [(''answers'',
                        PDict (setdefault a ''timestamp'' (PDate (clock E (clock_reads w)))))]\<rparr>
                    False]\<rparr>)"
    by (simp add: add_answer_def utcnow_def update_one_def attempt_def update_docs_def
        paths_of_add_answer [simplified] none Let_def)
  have on: "fst (add_answer E email a True w) = Inr () \<and>
            candidates (snd (add_answer E email a True w)) =
              candidates w @
                [[(''_id'', POid (next_oid w)), (''email'', PStr email),
                  (''updated_at'', PDate (clock E (Suc (clock_reads w)))),
                  (''answers'',
                   PList [PDict (setdefault a ''timestamp'' (PDate (clock E (clock_reads w))))])]]"
    if "goes_through E (length (calls w))"
    using that
    by (simp add: add_answer_def utcnow_def update_one_def attempt_def update_docs_def
        paths_of_add_answer [simplified] none inserted_by_add_answer Let_def)
  from off on show ?thesis by blast
qed

theorem add_answer_without_candidate_witness:
  "candidates (snd (add_answer demo_env ''a@b.com'' [(''answer'', PStr ''A1'')] False fresh_world))
     = [] \<and>
   candidates (snd (add_answer demo_env ''a@b.com'' [(''answer'', PStr ''A1'')] True fresh_world))
     = [[(''_id'', POid 0), (''email'', PStr ''a@b.com''), (''updated_at'', PDate 101),
         (''answers'', PList [PDict [(''answer'', PStr ''A1''), (''timestamp'', PDate 100)]])]]"
proof -
  have "find (matches ''a@b.com'') (candidates fresh_world) = None"
    by (simp add: fresh_world_def)
  from add_answer_without_candidate [OF this, of demo_env "[(''answer'', PStr ''A1'')]"]
  show ?thesis
    by (simp add: demo_env_def fresh_world_def setdefault_def has_key_def)
qed

text \<open>
  C6 as the specification states it fails: on an empty collection, with the flag
  false and a driver call that goes through, \<open>add_answer\<close> returns normally; no
  exception is raised and the collection stays empty.
\<close>

theorem add_answer_no_not_found_error:
  "find (matches ''a@b.com'') (candidates fresh_world) = None \<and>
   fst (add_answer demo_env ''a@b.com'' [(''answer'', PStr ''A1'')] False fresh_world) = Inr () \<and>
   candidates (snd (add_answer demo_env ''a@b.com'' [(''answer'', PStr ''A1'')] False fresh_world))
     = []"
  by (simp add: add_answer_def utcnow_def update_one_def attempt_def update_docs_def
      check_paths_def demo_env_def fresh_world_def)

section \<open>Claims about the missing email\<close>

text \<open>
  C9 (as amended). \<open>save_candidate_and_answers\<close> takes the email from the first of
  the keys \<open>email\<close>, \<open>Email\<close>, \<open>email_address\<close> whose value is truthy. When none of
  them has a truthy value, or that value is a text that is blank once stripped, the
  save fails with the \<open>ValueError\<close> that asks for an email. With the gateway already
  initialised this happens before any driver call and nothing changes. With the
  gateway not yet initialised, the automatic initialisation runs first: it contacts the
  server (\<open>server_info\<close>, then \<open>create_index\<close>), and when the server cannot be reached
  the save fails with the \<open>ConnectionError\<close> instead.
\<close>

theorem missing_email_rejected:
  assumes "find (truthy B) [dict_get c ''email'', dict_get c ''Email'', dict_get c ''email_address'']
             = None \<or>
           (\<exists>s. find (truthy B)
                  [dict_get c ''email'', dict_get c ''Email'', dict_get c ''email_address'']
                  = Some (PStr s) \<and> strip s = [])"
  shows "(db_wrapper w \<longrightarrow>
            save_candidate_and_answers B E (PDict c) answers_list w = (Inl Email_required, w)) \<and>
         (\<not> db_wrapper w \<and> db_instance w \<longrightarrow>
            save_candidate_and_answers B E (PDict c) answers_list w =
              (Inl Email_required, w\<lparr>db_wrapper := True\<rparr>)) \<and>
         (\<not> db_wrapper w \<and> \<not> db_instance w \<longrightarrow>
            save_candidate_and_answers B E (PDict c) answers_list w =
              (if goes_through E (length (calls w))
               then (Inl Email_required,
                     w\<lparr>calls := calls w @ [Server_info, Create_index],
                        db_instance := True, db_wrapper := True\<rparr>)
               else (Inl Auto_init_failed, w\<lparr>calls := calls w @ [Server_info]\<rparr>)))"
proof -
  have blank: "strip_method
      (py_or B (py_or B (py_or B (dict_get c ''email'') (dict_get c ''Email''))
                  (dict_get c ''email_address'')) (PStr '''')) = Inr []"
    using assms unfolding py_or_chain3
    by (auto simp: strip_method_def strip_def)
  show ?thesis
    by (simp add: save_candidate_and_answers_def blank init_mongo_def get_db_def connect_def
        attempt_def)
qed

theorem missing_email_rejected_witness:
  "save_candidate_and_answers demo_builtins demo_env
      (PDict [(''email'', PStr ''  ''), (''full_name'', PStr ''Ann'')]) [] ready_world
     = (Inl Email_required, ready_world)"
proof -
  have "\<exists>s. find (truthy demo_builtins)
      [dict_get [(''email'', PStr ''  ''), (''full_name'', PStr ''Ann'')] ''email'',
       dict_get [(''email'', PStr ''  ''), (''full_name'', PStr ''Ann'')] ''Email'',
       dict_get [(''email'', PStr ''  ''), (''full_name'', PStr ''Ann'')] ''email_address'']
      = Some (PStr s) \<and> strip s = []"
    by (simp add: dict_get_def strip_def py_isspace_def)
  then show ?thesis
    using missing_email_rejected [of demo_builtins
        "[(''email'', PStr ''  ''), (''full_name'', PStr ''Ann'')]" ready_world demo_env "[]"]
    by (simp add: ready_world_def)
qed

text \<open>
  C9 as the specification states it fails when the gateway is not yet initialised: for a
  candidate without an email the server is contacted twice before the \<open>ValueError\<close> is
  raised, and when the server cannot be reached the exception is the
  \<open>ConnectionError\<close>, not the \<open>ValueError\<close>.
\<close>

theorem missing_email_contacts_store:
  "dict_get ([] :: (string \<times> unit pyval) list) ''email'' = PNone \<and>
   fst (save_candidate_and_answers demo_builtins demo_env (PDict []) [] fresh_world)
     = Inl Email_required \<and>
   calls (snd (save_candidate_and_answers demo_builtins demo_env (PDict []) [] fresh_world))
     = [Server_info, Create_index] \<and>
   fst (save_candidate_and_answers demo_builtins demo_env_down (PDict []) [] fresh_world)
     = Inl Auto_init_failed"
  by (simp add: save_candidate_and_answers_def init_mongo_def get_db_def connect_def attempt_def
      dict_get_def py_or_def strip_method_def strip_def demo_env_def demo_env_down_def
      fresh_world_def)

section \<open>Claims about the upsert of a profile\<close>

text \<open>
  C5 (as amended). \<open>upsert_candidate\<close> never changes \<open>created_at\<close> of a stored
  document, whatever the payload. It never modifies \<open>answers\<close> of a stored document,
  also when the payload has the key \<open>answers\<close>, provided no other key of the payload
  is a dotted path below \<open>answers\<close>. When the payload moreover keeps the email, two
  successful calls with the same payload leave \<open>created_at\<close> and \<open>answers\<close> of the
  candidate's document as the first call left them, and \<open>updated_at\<close> goes from the
  clock reading of the first call to the one of the second call.
\<close>

theorem upsert_keeps_answers_and_created_at:
  assumes "upsert_candidate E email profile w = (r1, w1)"
    and "upsert_candidate E email profile w1 = (r2, w2)"
  shows "length (candidates w) \<le> length (candidates w1) \<and>
         (\<forall>i < length (candidates w).
            map_of (candidates w1 ! i) ''created_at'' = map_of (candidates w ! i) ''created_at'' \<and>
            (no_path_into_answers profile \<longrightarrow>
               map_of (candidates w1 ! i) ''answers'' = map_of (candidates w ! i) ''answers'')) \<and>
         (r1 = Inr () \<and> r2 = Inr () \<and> keeps_email email profile \<and> no_path_into_answers profile \<longrightarrow>
            (\<exists>d1 d2. candidate_of email w1 = Some d1 \<and> candidate_of email w2 = Some d2 \<and>
               map_of d2 ''created_at'' = map_of d1 ''created_at'' \<and>
               map_of d2 ''answers'' = map_of d1 ''answers'' \<and>
               map_of d1 ''updated_at'' = Some (PDate (clock E (clock_reads w))) \<and>
               map_of d2 ''updated_at'' = Some (PDate (clock E (clock_reads w + 2)))))"
proof -
  have twice: "\<exists>d1 d2. candidate_of email w1 = Some d1 \<and> candidate_of email w2 = Some d2 \<and>
               map_of d2 ''created_at'' = map_of d1 ''created_at'' \<and>
               map_of d2 ''answers'' = map_of d1 ''answers'' \<and>
               map_of d1 ''updated_at'' = Some (PDate (clock E (clock_reads w))) \<and>
               map_of d2 ''updated_at'' = Some (PDate (clock E (clock_reads w + 2)))"
    if ok: "r1 = Inr ()" "r2 = Inr ()" and ke: "keeps_email email profile"
      and na: "no_path_into_answers profile"
  proof -
    from assms ok have s1: "upsert_candidate E email profile w = (Inr (), w1)"
      and s2: "upsert_candidate E email profile w1 = (Inr (), w2)" by simp_all
    from upsert_success_find [OF s1 ke] obtain d1 where d1: "candidate_of email w1 = Some d1"
      and u1: "map_of d1 ''updated_at'' = Some (PDate (clock E (clock_reads w)))"
      and c1: "clock_reads w1 = Suc (Suc (clock_reads w))"
      by blast
    from upsert_success_find [OF s2 ke] d1 na obtain d2 where "candidate_of email w2 = Some d2"
      and "map_of d2 ''updated_at'' = Some (PDate (clock E (clock_reads w1)))"
      and "map_of d2 ''created_at'' = map_of d1 ''created_at''"
      and "map_of d2 ''answers'' = map_of d1 ''answers''"
      by blast
    with d1 u1 c1 show ?thesis by simp
  qed
  from upsert_frame [OF assms(1)] twice show ?thesis by blast
qed

theorem upsert_keeps_answers_and_created_at_witness:
  "map_of (hd (candidates (snd (upsert_candidate demo_env ''a@b.com'' demo_profile stored_world))))
      ''answers'' = Some (PList [PStr ''A1'']) \<and>
   map_of (hd (candidates (snd (upsert_candidate demo_env ''a@b.com'' demo_profile stored_world))))
      ''created_at'' = Some (PDate 1) \<and>
   (\<exists>d1 d2.
      candidate_of ''a@b.com''
        (snd (upsert_candidate demo_env ''a@b.com'' demo_profile stored_world)) = Some d1 \<and>
      candidate_of ''a@b.com''
        (snd (upsert_candidate demo_env ''a@b.com'' demo_profile
           (snd (upsert_candidate demo_env ''a@b.com'' demo_profile stored_world)))) = Some d2 \<and>
      map_of d2 ''created_at'' = map_of d1 ''created_at'' \<and>
      map_of d2 ''answers'' = map_of d1 ''answers'' \<and>
      map_of d1 ''updated_at'' = Some (PDate 100) \<and>
      map_of d2 ''updated_at'' = Some (PDate 102))"
proof -
  let ?w1 = "snd (upsert_candidate demo_env ''a@b.com'' demo_profile stored_world)"
  let ?w2 = "snd (upsert_candidate demo_env ''a@b.com'' demo_profile ?w1)"
  have w1: "?w1 = stored_world
      \<lparr>clock_reads := 2,
       calls := [Update_one ''a@b.com'' (profile_update 100 101 demo_profile) True],
       candidates :=
        [[(''_id'', POid 0), (''email'', PStr ''a@b.com''), (''created_at'', PDate 1),
          (''updated_at'', PDate 100), (''answers'', PList [PStr ''A1'']),
          (''name'', PStr ''Ann'')]]\<rparr>"
    and r1: "fst (upsert_candidate demo_env ''a@b.com'' demo_profile stored_world) = Inr ()"
    by (simp_all add: upsert_candidate_unfold update_one_def attempt_def update_docs_unfold
        update_paths_def check_paths_def profile_update_def demo_profile_def demo_env_def
        stored_world_def matches_def update_matched_def modify_doc_def leaf_set_def)
  have r2: "fst (upsert_candidate demo_env ''a@b.com'' demo_profile ?w1) = Inr ()"
    unfolding w1
    by (simp add: upsert_candidate_unfold update_one_def attempt_def update_docs_unfold
        update_paths_def check_paths_def profile_update_def demo_profile_def demo_env_def
        stored_world_def matches_def update_matched_def modify_doc_def leaf_set_def)
  have ke: "keeps_email ''a@b.com'' demo_profile"
    by (simp add: keeps_email_def demo_profile_def)
  have na: "no_path_into_answers demo_profile"
    by (simp add: no_path_into_answers_def demo_profile_def)
  have cl: "clock demo_env (clock_reads stored_world) = 100"
    "clock demo_env (clock_reads stored_world + 2) = 102"
    by (simp_all add: demo_env_def stored_world_def)
  have len: "length (candidates stored_world) = 1"
    and first: "candidates stored_world ! 0 =
        [(''_id'', POid 0), (''email'', PStr ''a@b.com''), (''created_at'', PDate 1),
          (''updated_at'', PDate 2), (''answers'', PList [PStr ''A1''])]"
    by (simp_all add: stored_world_def)
  have hd1: "hd (candidates ?w1) = candidates ?w1 ! 0"
    unfolding w1 by simp
  have cl2: "clock demo_env (Suc (Suc (clock_reads stored_world))) = 102"
    by (simp add: demo_env_def stored_world_def)
  from upsert_keeps_answers_and_created_at
    [where E = demo_env and email = "''a@b.com''" and profile = demo_profile
       and w = stored_world, OF prod.collapse [symmetric] prod.collapse [symmetric]]
    r1 r2 ke na
  show ?thesis
    by (simp add: cl cl2 len first hd1)
qed

text \<open>
  C5 as the specification states it fails for a payload with a dotted key below
  \<open>answers\<close>: \<open>pop("answers")\<close> removes only the key \<open>answers\<close>, and the \<open>$set\<close> of
  \<open>answers.0\<close> replaces the first stored answer.
\<close>

theorem upsert_dotted_key_changes_answers:
  "map_of (hd (candidates stored_world)) ''answers'' = Some (PList [PStr ''A1'']) \<and>
   fst (upsert_candidate demo_env ''a@b.com'' [(''answers.0'', PStr ''changed'')] stored_world)
     = Inr () \<and>
   map_of (hd (candidates (snd (upsert_candidate demo_env ''a@b.com''
       [(''answers.0'', PStr ''changed'')] stored_world)))) ''answers''
     = Some (PList [PStr ''changed''])"
  by (simp add: upsert_candidate_unfold update_one_def attempt_def update_docs_unfold
      update_paths_def check_paths_def profile_update_def demo_env_def
      stored_world_def matches_def update_matched_def modify_doc_def leaf_set_def
      array_index_def is_digit_def)

lemma length_stamped_answers: "length (stamped_answers E n as) = length as"
  by (induction as arbitrary: n) simp_all

lemma nth_stamped_answers:
  "i < length as \<Longrightarrow> stamped_answers E n as ! i = stamped (clock E (n + 2 * i)) (as ! i)"
proof (induction as arbitrary: n i)
  case Nil
  then show ?case by simp
next
  case (Cons a as)
  then show ?case by (cases i) simp_all
qed

lemma answers_in_from_doc:
  assumes "candidate_of email w = Some d" and "map_of d ''answers'' = Some (PList ys)"
  shows "answers_in email w = Some ys"
  using assms by (simp add: answers_in_def answers_of_def)

lemma add_answers_appends:
  assumes "answers_in email w = Some xs"
    and "\<forall>i < length as. goes_through E (length (calls w) + i)"
  shows "\<exists>w'. add_answers E email as w = (Inr (), w') \<and>
           answers_in email w' = Some (xs @ stamped_answers E (clock_reads w) as) \<and>
           clock_reads w' = clock_reads w + 2 * length as \<and>
           length (calls w') = length (calls w) + length as \<and>
           (as \<noteq> [] \<longrightarrow>
              (\<exists>d. candidate_of email w' = Some d \<and>
                 map_of d ''answers'' = Some (PList (xs @ stamped_answers E (clock_reads w) as)) \<and>
                 map_of d ''updated_at'' =
                   Some (PDate (clock E (clock_reads w + 2 * length as - 1)))))"
  using assms
proof (induction as arbitrary: w xs)
  case Nil
  then show ?case by simp
next
  case (Cons a as)
  from Cons.prems(2) have "goes_through E (length (calls w))" by force
  from add_answer_appends [OF this Cons.prems(1), of a]
  obtain w1 d1 where run: "add_answer E email a True w = (Inr (), w1)"
    and d1: "candidate_of email w1 = Some d1"
    and a1: "map_of d1 ''answers'' = Some (PList (xs @ [stamped (clock E (clock_reads w)) a]))"
    and u1: "map_of d1 ''updated_at'' = Some (PDate (clock E (Suc (clock_reads w))))"
    and c1: "clock_reads w1 = Suc (Suc (clock_reads w))"
    and k1: "calls w1 = calls w @
             [Update_one email
                (answer_update (clock E (clock_reads w)) (clock E (Suc (clock_reads w))) a) True]"
    by blast
  from answers_in_from_doc [OF d1 a1]
  have in1: "answers_in email w1 = Some (xs @ [stamped (clock E (clock_reads w)) a])" .
  have "\<forall>i < length as. goes_through E (length (calls w1) + i)"
  proof (intro allI impI)
    fix i assume "i < length as"
    then have "Suc i < length (a # as)" by simp
    with Cons.prems(2) have "goes_through E (length (calls w) + Suc i)" by blast
    then show "goes_through E (length (calls w1) + i)" by (simp add: k1)
  qed
  from Cons.IH [OF in1 this]
  obtain w' where rest: "add_answers E email as w1 = (Inr (), w')"
    and in': "answers_in email w' =
        Some ((xs @ [stamped (clock E (clock_reads w)) a]) @ stamped_answers E (clock_reads w1) as)"
    and c': "clock_reads w' = clock_reads w1 + 2 * length as"
    and k': "length (calls w') = length (calls w1) + length as"
    and last: "as \<noteq> [] \<longrightarrow>
              (\<exists>d. candidate_of email w' = Some d \<and>
                 map_of d ''answers'' = Some (PList ((xs @ [stamped (clock E (clock_reads w)) a]) @
                     stamped_answers E (clock_reads w1) as)) \<and>
                 map_of d ''updated_at'' =
                   Some (PDate (clock E (clock_reads w1 + 2 * length as - 1))))"
    by blast
  have all: "add_answers E email (a # as) w = (Inr (), w')"
    by (simp add: run rest)
  have final: "\<exists>d. candidate_of email w' = Some d \<and>
      map_of d ''answers'' = Some (PList (xs @ stamped_answers E (clock_reads w) (a # as))) \<and>
      map_of d ''updated_at'' = Some (PDate (clock E (clock_reads w + 2 * length (a # as) - 1)))"
  proof (cases "as = []")
    case True
    with rest have "w' = w1" by simp
    with d1 a1 u1 True show ?thesis by simp
  next
    case False
    with last obtain d where "candidate_of email w' = Some d"
      and "map_of d ''answers'' = Some (PList ((xs @ [stamped (clock E (clock_reads w)) a]) @
                     stamped_answers E (clock_reads w1) as))"
      and "map_of d ''updated_at'' = Some (PDate (clock E (clock_reads w1 + 2 * length as - 1)))"
      by blast
    moreover from False have "clock_reads w1 + 2 * length as - 1 =
        clock_reads w + 2 * length (a # as) - 1"
      by (simp add: c1)
    ultimately show ?thesis by (simp add: c1)
  qed
  from all in' c' k' final show ?case
    by (simp add: c1 k1)
qed

section \<open>Claims about the accumulation of answers\<close>

text \<open>
  C8. Calling \<open>add_answer\<close> once for each payload of a non-empty list, for an email
  whose stored answers are \<open>xs\<close> (none when the email has no document yet), with every
  driver call going through, leaves a document for the email whose \<open>answers\<close> are
  \<open>xs\<close> followed by the records of the payloads in call order: as many as there were
  calls. Each record is the payload itself when it has a \<open>timestamp\<close>, else the
  payload with the clock reading of its call as \<open>timestamp\<close>. \<open>updated_at\<close> of the
  document is the last clock reading taken.
\<close>

theorem append_accumulates:
  assumes "answers_in email w = Some xs"
    and "\<forall>i < length as. goes_through E (length (calls w) + i)"
    and "as \<noteq> []"
  shows "\<exists>w' d. add_answers E email as w = (Inr (), w') \<and>
           candidate_of email w' = Some d \<and>
           map_of d ''answers'' = Some (PList (xs @ stamped_answers E (clock_reads w) as)) \<and>
           length (xs @ stamped_answers E (clock_reads w) as) = length xs + length as \<and>
           (\<forall>i < length as.
              stamped_answers E (clock_reads w) as ! i =
                PDict (if has_key (as ! i) ''timestamp'' then as ! i
                       else as ! i @ [(''timestamp'', PDate (clock E (clock_reads w + 2 * i)))])) \<and>
           map_of d ''updated_at'' = Some (PDate (clock E (clock_reads w + 2 * length as - 1)))"
proof -
  from add_answers_appends [OF assms(1,2)] assms(3)
  obtain w' d where "add_answers E email as w = (Inr (), w')"
    and "candidate_of email w' = Some d"
    and "map_of d ''answers'' = Some (PList (xs @ stamped_answers E (clock_reads w) as))"
    and "map_of d ''updated_at'' = Some (PDate (clock E (clock_reads w + 2 * length as - 1)))"
    by blast
  moreover have "\<forall>i < length as.
              stamped_answers E (clock_reads w) as ! i =
                PDict (if has_key (as ! i) ''timestamp'' then as ! i
                       else as ! i @ [(''timestamp'', PDate (clock E (clock_reads w + 2 * i)))])"
    by (simp add: nth_stamped_answers stamped_def setdefault_def)
  ultimately show ?thesis
    by (simp add: length_stamped_answers)
qed

theorem append_accumulates_witness:
  "\<exists>w' d. add_answers demo_env ''a@b.com''
          [[(''answer'', PStr ''A1'')], [(''answer'', PStr ''A2''), (''timestamp'', PDate 7)],
           [(''answer'', PStr ''A3'')]] fresh_world = (Inr (), w') \<and>
     candidate_of ''a@b.com'' w' = Some d \<and>
     map_of d ''answers'' =
       Some (PList [PDict [(''answer'', PStr ''A1''), (''timestamp'', PDate 100)],
                    PDict [(''answer'', PStr ''A2''), (''timestamp'', PDate 7)],
                    PDict [(''answer'', PStr ''A3''), (''timestamp'', PDate 104)]]) \<and>
     map_of d ''updated_at'' = Some (PDate 105)"
proof -
  have start: "answers_in ''a@b.com'' fresh_world = Some []"
    by (simp add: answers_in_def candidate_of_def fresh_world_def)
  have up: "\<forall>i < length [[(''answer'', PStr ''A1'')],
        [(''answer'', PStr ''A2''), (''timestamp'', PDate 7)],
        [(''answer'', PStr ''A3'') :: string \<times> unit pyval]].
      goes_through demo_env (length (calls fresh_world) + i)"
    by (simp add: demo_env_def)
  have recs: "stamped_answers demo_env (clock_reads fresh_world)
        [[(''answer'', PStr ''A1'')], [(''answer'', PStr ''A2''), (''timestamp'', PDate 7)],
         [(''answer'', PStr ''A3'')]]
      = [PDict [(''answer'', PStr ''A1''), (''timestamp'', PDate 100)],
         PDict [(''answer'', PStr ''A2''), (''timestamp'', PDate 7)],
         PDict [(''answer'', PStr ''A3''), (''timestamp'', PDate 104)]]"
    by (simp add: fresh_world_def demo_env_def stamped_def setdefault_def has_key_def)
  have last: "clock demo_env (clock_reads fresh_world + 2 * length
        [[(''answer'', PStr ''A1'')], [(''answer'', PStr ''A2''), (''timestamp'', PDate 7)],
         [(''answer'', PStr ''A3'') :: string \<times> unit pyval]] - 1) = 105"
    by (simp add: fresh_world_def demo_env_def)
  from append_accumulates [OF start up] recs last
  show ?thesis
    by (metis append_Nil list.distinct(1))
qed

section \<open>Facts about the composite save\<close>



















section \<open>Claims about the composite save\<close>


end
